theory Spec2Isabelle
  imports Main
begin

section \<open>Team levels and game categories (shared.js)\<close>

text \<open>
  The constants of \<^verbatim>\<open>TEAM_LEVELS\<close> and \<^verbatim>\<open>GAME_CATEGORIES\<close> are JavaScript strings.
  A team category handed to \<^verbatim>\<open>categorizeGame\<close> is either \<^verbatim>\<open>null\<close> (\<open>None\<close>) or a
  string (\<open>Some s\<close>); the same holds for every category the functions return.
\<close>

definition TOP_TIER :: string where
  "TOP_TIER = ''top-tier''"

definition FAVORITE :: string where
  "FAVORITE = ''favorite''"

definition THINKIN_SUPEY :: string where
  "THINKIN_SUPEY = ''thinkin-supey''"

definition YA_NEVER_KNOW :: string where
  "YA_NEVER_KNOW = ''ya-never-know''"

definition ROB_LOWE :: string where
  "ROB_LOWE = ''rob-lowe''"

definition PLAYOFF_PREVIEW :: string where
  "PLAYOFF_PREVIEW = ''playoff-preview''"

definition MEASURING_STICK :: string where
  "MEASURING_STICK = ''measuring-stick''"

definition BEAT_EM_OFF :: string where
  "BEAT_EM_OFF = ''beat-em-off''"

definition HOUSE_DIVIDED :: string where
  "HOUSE_DIVIDED = ''house-divided''"

lemmas level_defs = TOP_TIER_def FAVORITE_def THINKIN_SUPEY_def YA_NEVER_KNOW_def

lemmas category_defs =
  ROB_LOWE_def PLAYOFF_PREVIEW_def MEASURING_STICK_def BEAT_EM_OFF_def HOUSE_DIVIDED_def

subsection \<open>categorizeTeam\<close>

text \<open>
  A team id arrives from the upstream API as a string or as a number. \<^verbatim>\<open>String(x)\<close> is \<open>x\<close>
  itself for a string and the number's \<^verbatim>\<open>Number::toString\<close> for a number. The numbers and
  their conversion are parameters of the model, the type \<open>'n\<close> and the function
  \<open>Number_toString\<close>: what is proved of \<^verbatim>\<open>categorizeTeam\<close> below is proved for every type of
  numbers and every conversion, so also for the doubles of JavaScript with their exponent
  notation from \<open>10^21\<close> on and their non-integers.
\<close>

datatype 'n js_id = IdStr string | IdNum 'n

fun String :: "('n \<Rightarrow> string) \<Rightarrow> 'n js_id \<Rightarrow> string" where
  "String Number_toString (IdStr s) = s"
| "String Number_toString (IdNum n) = Number_toString n"

text \<open>\<^verbatim>\<open>xs.map(String).includes(s)\<close>: strict equality of strings against each element.\<close>

definition js_includes :: "'a list \<Rightarrow> 'a \<Rightarrow> bool" where
  "js_includes xs x = (x \<in> set xs)"

definition categorizeTeam ::
  "('n \<Rightarrow> string) \<Rightarrow> 'n js_id \<Rightarrow> 'n js_id list \<Rightarrow> 'n js_id list \<Rightarrow> string option" where
  "categorizeTeam Number_toString teamId topTierTeamIds favoriteTeamIds =
     (let teamIdStr = String Number_toString teamId;
          isTopTier = js_includes (map (String Number_toString) topTierTeamIds) teamIdStr;
          isFavorite = js_includes (map (String Number_toString) favoriteTeamIds) teamIdStr
      in if isFavorite \<and> isTopTier then Some THINKIN_SUPEY
         else if isFavorite \<and> \<not> isTopTier then Some YA_NEVER_KNOW
         else if isTopTier then Some TOP_TIER
         else None)"

text \<open>
  One instance of the parameters, for the scenarios: the safe integers, the integers \<open>n\<close>
  with \<open>|n| \<le> 2^53 - 1\<close> (\<^verbatim>\<open>Number.isSafeInteger\<close>). Each of them is a double, and
  \<^verbatim>\<open>Number::toString\<close> prints it as its decimal numeral, with a minus sign when negative.
\<close>

typedef safe_integer = "{n :: int. - 9007199254740991 \<le> n \<and> n \<le> 9007199254740991}"
  by (rule exI [of _ 0]) simp

definition digit_char :: "nat \<Rightarrow> char" where
  "digit_char d = ''0123456789'' ! d"

function string_of_nat :: "nat \<Rightarrow> string" where
  "string_of_nat n =
     (if n < 10 then [digit_char n] else string_of_nat (n div 10) @ [digit_char (n mod 10)])"
  by pat_completeness auto
termination
  by (relation "measure (\<lambda>n. n)") auto

declare string_of_nat.simps [simp del]

definition string_of_int :: "int \<Rightarrow> string" where
  "string_of_int i = (if i < 0 then CHR ''-'' # string_of_nat (nat (- i)) else string_of_nat (nat i))"

definition safe_integer_toString :: "safe_integer \<Rightarrow> string" where
  "safe_integer_toString n = string_of_int (Rep_safe_integer n)"

subsection \<open>categorizeGame\<close>

text \<open>\<^verbatim>\<open>!c\<close> for a category \<open>c\<close> that is \<^verbatim>\<open>null\<close> or a string: true for \<^verbatim>\<open>null\<close> and for the empty string.\<close>

definition falsy :: "string option \<Rightarrow> bool" where
  "falsy c = (c = None \<or> c = Some [])"

definition categorizeGame :: "string option \<Rightarrow> string option \<Rightarrow> string option" where
  "categorizeGame homeTeamCategory awayTeamCategory =
     (let isHomeThinkinSupey = (homeTeamCategory = Some THINKIN_SUPEY);
          isAwayThinkinSupey = (awayTeamCategory = Some THINKIN_SUPEY);
          isHomeYaNeverKnow = (homeTeamCategory = Some YA_NEVER_KNOW);
          isAwayYaNeverKnow = (awayTeamCategory = Some YA_NEVER_KNOW);
          isHomeFavorite = (isHomeThinkinSupey \<or> isHomeYaNeverKnow);
          isAwayFavorite = (isAwayThinkinSupey \<or> isAwayYaNeverKnow);
          isHomeTopTierOnly = (homeTeamCategory = Some TOP_TIER);
          isAwayTopTierOnly = (awayTeamCategory = Some TOP_TIER)
      in if isHomeFavorite \<and> isAwayFavorite then Some HOUSE_DIVIDED
         else if (isHomeTopTierOnly \<and> isAwayThinkinSupey) \<or> (isAwayTopTierOnly \<and> isHomeThinkinSupey)
           then Some PLAYOFF_PREVIEW
         else if isHomeTopTierOnly \<and> isAwayTopTierOnly then Some ROB_LOWE
         else if (isHomeYaNeverKnow \<and> isAwayTopTierOnly) \<or> (isAwayYaNeverKnow \<and> isHomeTopTierOnly)
           then Some MEASURING_STICK
         else (let isHomeRegular = falsy homeTeamCategory;
                   isAwayRegular = falsy awayTeamCategory
               in if isHomeFavorite \<and> isAwayRegular then Some BEAT_EM_OFF
                  else if isAwayFavorite \<and> isHomeRegular then Some BEAT_EM_OFF
                  else None))"

text \<open>
  The rule table as the specification words it, on the four tiers the classifier can
  produce. A side is a favorite tier when it is thinkin-supey or ya-never-know; each rule
  speaks of the unordered pair of sides.
\<close>

definition tiers :: "string option set" where
  "tiers = {None, Some TOP_TIER, Some THINKIN_SUPEY, Some YA_NEVER_KNOW}"

definition favorite_tier :: "string option \<Rightarrow> bool" where
  "favorite_tier t = (t = Some THINKIN_SUPEY \<or> t = Some YA_NEVER_KNOW)"

definition one_side_other :: "string option \<Rightarrow> string option \<Rightarrow> string option \<Rightarrow> string option \<Rightarrow> bool" where
  "one_side_other h a x y = ((h = x \<and> a = y) \<or> (h = y \<and> a = x))"

definition rule_table :: "string option \<Rightarrow> string option \<Rightarrow> string option" where
  "rule_table h a =
     (if favorite_tier h \<and> favorite_tier a then Some HOUSE_DIVIDED
      else if one_side_other h a (Some TOP_TIER) (Some THINKIN_SUPEY) then Some PLAYOFF_PREVIEW
      else if h = Some TOP_TIER \<and> a = Some TOP_TIER then Some ROB_LOWE
      else if one_side_other h a (Some YA_NEVER_KNOW) (Some TOP_TIER) then Some MEASURING_STICK
      else if (favorite_tier h \<and> a = None) \<or> (favorite_tier a \<and> h = None) then Some BEAT_EM_OFF
      else None)"

section \<open>The browser's key-value storage\<close>

text \<open>
  \<^verbatim>\<open>localStorage\<close> and \<^verbatim>\<open>sessionStorage\<close> hold strings. The code only ever stores
  \<^verbatim>\<open>JSON.stringify(v)\<close> and reads back through \<^verbatim>\<open>JSON.parse\<close>, so an item is kept by what
  \<^verbatim>\<open>JSON.parse\<close> makes of it: the empty string, a text that is not JSON, or the value \<open>v\<close>
  of a JSON text. Each module below reads and writes its own keys (the settings key, the
  favorites key and the keys with the cache prefix differ from one another), and its
  storage is the view of the browser's storage at those keys, with values of the type the
  module stores there: a JSON text of another shape than the module's documents is not
  among the items.
  Two ways for the storage to fail are part of the state: with \<open>access_denied\<close> every
  access throws, with \<open>quota_exceeded\<close> every \<^verbatim>\<open>setItem\<close> throws. \<open>setItem_log\<close> records the
  writes that went through, oldest first.
\<close>

datatype js_error =
  SecurityError | QuotaExceededError | SyntaxError | TypeError | InvalidCharacterError

datatype 'v item = EmptyString | Unparseable | Json 'v

record 'v storage =
  items :: "string \<Rightarrow> 'v item option"
  access_denied :: bool
  quota_exceeded :: bool
  setItem_log :: "(string \<times> 'v) list"

definition getItem :: "'v storage \<Rightarrow> string \<Rightarrow> js_error + 'v item option" where
  "getItem s k = (if access_denied s then Inl SecurityError else Inr (items s k))"

definition setItem :: "'v storage \<Rightarrow> string \<Rightarrow> 'v \<Rightarrow> js_error + 'v storage" where
  "setItem s k v =
     (if access_denied s then Inl SecurityError
      else if quota_exceeded s then Inl QuotaExceededError
      else Inr (s\<lparr>items := (items s)(k \<mapsto> Json v), setItem_log := setItem_log s @ [(k, v)]\<rparr>))"

definition removeItem :: "'v storage \<Rightarrow> string \<Rightarrow> js_error + 'v storage" where
  "removeItem s k =
     (if access_denied s then Inl SecurityError
      else Inr (s\<lparr>items := (items s)(k := None)\<rparr>))"

definition JSON_parse :: "'v item \<Rightarrow> js_error + 'v" where
  "JSON_parse i = (case i of Json v \<Rightarrow> Inr v | _ \<Rightarrow> Inl SyntaxError)"

text \<open>\<^verbatim>\<open>if (saved)\<close> on the result of \<^verbatim>\<open>getItem\<close>: \<^verbatim>\<open>null\<close> and the empty string are falsy.\<close>

definition truthy_item :: "'v item option \<Rightarrow> bool" where
  "truthy_item i = (i \<noteq> None \<and> i \<noteq> Some EmptyString)"

section \<open>API response cache (shared.js)\<close>

definition CACHE_KEY_PREFIX :: string where
  "CACHE_KEY_PREFIX = ''sports-tracker-cache-''"

definition DEFAULT_TTL :: int where
  "DEFAULT_TTL = 24 * 60 * 60 * 1000"

text \<open>
  A cache entry \<^verbatim>\<open>{ timestamp, data, ttl }\<close>. Times are milliseconds since the epoch; the
  payload is any value that \<^verbatim>\<open>JSON.parse(JSON.stringify(data))\<close> gives back. A stored
  entry may carry no \<^verbatim>\<open>ttl\<close> or \<^verbatim>\<open>null\<close> (\<open>None\<close>).
\<close>

record 'd cache_entry =
  timestamp :: int
  data :: 'd
  ttl :: "int option"

text \<open>\<^verbatim>\<open>entry.ttl || DEFAULT_TTL\<close>: a missing, \<^verbatim>\<open>null\<close> or zero ttl is falsy.\<close>

definition ttl_or_default :: "int option \<Rightarrow> int" where
  "ttl_or_default t = (case t of None \<Rightarrow> DEFAULT_TTL | Some n \<Rightarrow> if n = 0 then DEFAULT_TTL else n)"

text \<open>
  \<^verbatim>\<open>getCached(key)\<close> at time \<open>now\<close> (the value of \<^verbatim>\<open>Date.now()\<close>). The whole body is inside
  \<^verbatim>\<open>try\<close>; every \<open>Inl\<close> below is caught and answered with \<^verbatim>\<open>null\<close> (\<open>None\<close>).
\<close>

definition getCached ::
  "int \<Rightarrow> string \<Rightarrow> 'd cache_entry storage \<Rightarrow> 'd option \<times> 'd cache_entry storage" where
  "getCached now key ls =
     (case getItem ls (CACHE_KEY_PREFIX @ key) of
        Inl e \<Rightarrow> (None, ls)
      | Inr cached \<Rightarrow>
          if \<not> truthy_item cached then (None, ls)
          else (case cached of
                  None \<Rightarrow> (None, ls)
                | Some i \<Rightarrow>
                    (case JSON_parse i of
                       Inl e \<Rightarrow> (None, ls)
                     | Inr entry \<Rightarrow>
                         (let age = now - timestamp entry
                          in if age < ttl_or_default (ttl entry) then (Some (data entry), ls)
                             else (case removeItem ls (CACHE_KEY_PREFIX @ key) of
                                     Inl e \<Rightarrow> (None, ls)
                                   | Inr ls' \<Rightarrow> (None, ls'))))))"

text \<open>
  \<^verbatim>\<open>setCache(key, data, ttl = DEFAULT_TTL)\<close> at time \<open>now\<close>; \<open>None\<close> for the third argument
  is a call that leaves it out. A failed write is caught and dropped.
\<close>

definition setCache ::
  "int \<Rightarrow> string \<Rightarrow> 'd \<Rightarrow> int option \<Rightarrow> 'd cache_entry storage \<Rightarrow> 'd cache_entry storage" where
  "setCache now key d ttl_arg ls =
     (let ttl_v = (case ttl_arg of None \<Rightarrow> DEFAULT_TTL | Some t \<Rightarrow> t);
          entry = \<lparr>timestamp = now, data = d, ttl = Some ttl_v\<rparr>
      in case setItem ls (CACHE_KEY_PREFIX @ key) entry of
           Inl e \<Rightarrow> ls
         | Inr ls' \<Rightarrow> ls')"

text \<open>A storage that accepts reads and writes.\<close>

definition working :: "'v storage \<Rightarrow> bool" where
  "working s = (\<not> access_denied s \<and> \<not> quota_exceeded s)"

definition empty_storage :: "'v storage" where
  "empty_storage = \<lparr>items = (\<lambda>k. None), access_denied = False, quota_exceeded = False, setItem_log = []\<rparr>"

text \<open>A storage holding one entry, written at time 1000 without a ttl.\<close>

definition stale_free_entry :: "nat cache_entry storage" where
  "stale_free_entry =
     empty_storage\<lparr>items := (\<lambda>k. if k = CACHE_KEY_PREFIX @ ''k''
        then Some (Json \<lparr>timestamp = 1000, data = 7, ttl = None\<rparr>) else None)\<rparr>"


section \<open>Favorite teams (settings page)\<close>

definition FAVORITE_TEAMS_KEY :: string where
  "FAVORITE_TEAMS_KEY = ''sports-tracker-favorite-teams''"

definition MAX_TEAMS :: nat where
  "MAX_TEAMS = 10"

text \<open>A team object \<^verbatim>\<open>{ name, id, league, sport, espnPath, logo }\<close>.\<close>

record team =
  team_name :: string
  team_id :: "int js_id"
  league :: string
  sport :: string
  espnPath :: string
  logo :: string

definition DEFAULT_TEAMS_literal :: "team list" where
  "DEFAULT_TEAMS_literal =
     [\<lparr>team_name = ''Everton'', team_id = IdStr ''368'', league = ''premier-league'',
       sport = ''soccer'', espnPath = ''soccer/eng.1'',
       logo = ''https://a.espncdn.com/i/teamlogos/soccer/500/368.png''\<rparr>,
      \<lparr>team_name = ''Tampa Bay Buccaneers'', team_id = IdStr ''27'', league = ''nfl'',
       sport = ''football'', espnPath = ''football/nfl'',
       logo = ''https://a.espncdn.com/i/teamlogos/nfl/500/tb.png''\<rparr>,
      \<lparr>team_name = ''Tampa Bay Lightning'', team_id = IdStr ''20'', league = ''nhl'',
       sport = ''hockey'', espnPath = ''hockey/nhl'',
       logo = ''https://a.espncdn.com/i/teamlogos/nhl/500/tb.png''\<rparr>,
      \<lparr>team_name = ''Tampa Bay Rays'', team_id = IdStr ''30'', league = ''mlb'',
       sport = ''baseball'', espnPath = ''baseball/mlb'',
       logo = ''https://a.espncdn.com/i/teamlogos/mlb/500/tb.png''\<rparr>]"

text \<open>
  The state the favorites functions work on: the storage at \<^verbatim>\<open>FAVORITE_TEAMS_KEY\<close>, the
  module-level array \<^verbatim>\<open>DEFAULT_TEAMS\<close> (a \<^verbatim>\<open>const\<close> binding of a mutable array, which
  \<^verbatim>\<open>getFavoriteTeams\<close> hands out itself, not a copy) and the alerts shown so far.
\<close>

record favorites_state =
  fav_storage :: "team list storage"
  DEFAULT_TEAMS :: "team list"
  alerts :: "string list"

text \<open>What \<^verbatim>\<open>getFavoriteTeams\<close> returns: a freshly parsed array or the array \<^verbatim>\<open>DEFAULT_TEAMS\<close>.\<close>

datatype teams_ref = Fresh "team list" | DefaultTeamsArray

definition deref :: "favorites_state \<Rightarrow> teams_ref \<Rightarrow> team list" where
  "deref st r = (case r of Fresh ts \<Rightarrow> ts | DefaultTeamsArray \<Rightarrow> DEFAULT_TEAMS st)"

definition getFavoriteTeams :: "favorites_state \<Rightarrow> teams_ref" where
  "getFavoriteTeams st =
     (case getItem (fav_storage st) FAVORITE_TEAMS_KEY of
        Inl e \<Rightarrow> DefaultTeamsArray
      | Inr saved \<Rightarrow>
          if truthy_item saved then
            (case saved of
               None \<Rightarrow> DefaultTeamsArray
             | Some i \<Rightarrow>
                 (case JSON_parse i of
                    Inl e \<Rightarrow> DefaultTeamsArray
                  | Inr ts \<Rightarrow> if length ts > 0 then Fresh ts else DefaultTeamsArray))
          else DefaultTeamsArray)"

definition saveFavoriteTeams :: "team list \<Rightarrow> favorites_state \<Rightarrow> js_error + favorites_state" where
  "saveFavoriteTeams ts st =
     (case setItem (fav_storage st) FAVORITE_TEAMS_KEY ts of
        Inl e \<Rightarrow> Inl e
      | Inr ls' \<Rightarrow> Inr (st\<lparr>fav_storage := ls'\<rparr>))"

text \<open>\<^verbatim>\<open>t.id === team.id && t.league === team.league\<close>\<close>

definition same_team :: "team \<Rightarrow> team \<Rightarrow> bool" where
  "same_team x t = (team_id t = team_id x \<and> league t = league x)"

text \<open>
  \<^verbatim>\<open>addFavoriteTeam(team)\<close>: the result is \<open>Inr\<close> of the returned boolean, or \<open>Inl\<close> of the
  exception that leaves the function (only \<^verbatim>\<open>saveFavoriteTeams\<close> can throw, it is not
  inside a \<^verbatim>\<open>try\<close>). \<^verbatim>\<open>teams.push(team)\<close> changes \<^verbatim>\<open>DEFAULT_TEAMS\<close> when \<open>teams\<close> is that array.
\<close>

definition addFavoriteTeam :: "team \<Rightarrow> favorites_state \<Rightarrow> (js_error + bool) \<times> favorites_state" where
  "addFavoriteTeam x st =
     (let r = getFavoriteTeams st;
          ts = deref st r
      in if length ts \<ge> MAX_TEAMS then
           (Inr False,
            st\<lparr>alerts := alerts st @
              [''You can only have up to '' @ string_of_nat MAX_TEAMS @ '' favorite teams. Remove one first.'']\<rparr>)
         else if list_ex (same_team x) ts then (Inr False, st)
         else (let ts' = ts @ [x];
                   st1 = (case r of Fresh _ \<Rightarrow> st | DefaultTeamsArray \<Rightarrow> st\<lparr>DEFAULT_TEAMS := ts'\<rparr>)
               in case saveFavoriteTeams ts' st1 of
                    Inl e \<Rightarrow> (Inl e, st1)
                  | Inr st2 \<Rightarrow> (Inr True, st2)))"

text \<open>The favorites list the page works with: what \<^verbatim>\<open>getFavoriteTeams()\<close> evaluates to.\<close>

definition current_favorites :: "favorites_state \<Rightarrow> team list" where
  "current_favorites st = deref st (getFavoriteTeams st)"

text \<open>A page that has just loaded, with the given text stored under the favorites key.\<close>

definition fresh_favorites :: "team list item option \<Rightarrow> favorites_state" where
  "fresh_favorites i =
     \<lparr>fav_storage = empty_storage\<lparr>items := (\<lambda>k. if k = FAVORITE_TEAMS_KEY then i else None)\<rparr>,
      DEFAULT_TEAMS = DEFAULT_TEAMS_literal, alerts = []\<rparr>"

definition everton :: team where
  "everton = \<lparr>team_name = ''Everton'', team_id = IdStr ''368'', league = ''premier-league'',
       sport = ''soccer'', espnPath = ''soccer/eng.1'',
       logo = ''https://a.espncdn.com/i/teamlogos/soccer/500/368.png''\<rparr>"

definition arsenal :: team where
  "arsenal = \<lparr>team_name = ''Arsenal'', team_id = IdStr ''359'', league = ''premier-league'',
       sport = ''soccer'', espnPath = ''soccer/eng.1'',
       logo = ''https://a.espncdn.com/i/teamlogos/soccer/500/359.png''\<rparr>"

definition the_persisted :: "favorites_state \<Rightarrow> team list item option" where
  "the_persisted st = items (fav_storage st) FAVORITE_TEAMS_KEY"


section \<open>Big game settings (shared.js)\<close>

definition BIG_GAME_SETTINGS_KEY :: string where
  "BIG_GAME_SETTINGS_KEY = ''sports-tracker-big-game-settings''"

definition WATCH_PARTY_SESSION_KEY :: string where
  "WATCH_PARTY_SESSION_KEY = ''sports-tracker-watch-party''"

definition SETTINGS_SCHEMA_VERSION :: int where
  "SETTINGS_SCHEMA_VERSION = 3"

text \<open>\<^verbatim>\<open>COMPETITIONS\<close>: competition keys with their display names, in the order of the literal.\<close>

definition COMPETITIONS :: "(string \<times> string) list" where
  "COMPETITIONS =
     [(''premier-league'', ''Premier League''),
      (''champions-league'', ''Champions League''),
      (''fa-cup'', ''FA Cup''),
      (''league-cup'', ''League Cup''),
      (''nba'', ''NBA''),
      (''nhl'', ''NHL'')]"

text \<open>\<^verbatim>\<open>Object.keys(COMPETITIONS)\<close>\<close>

definition COMPETITIONS_keys :: "string list" where
  "COMPETITIONS_keys = map fst COMPETITIONS"

definition ALL_CATEGORIES :: "string list" where
  "ALL_CATEGORIES = [''rob-lowe'', ''playoff-preview'', ''measuring-stick'', ''beat-em-off'', ''house-divided'']"

definition CL_CATEGORIES :: "string list" where
  "CL_CATEGORIES = [''cl-favorite'', ''cl-top-english'', ''cl-other-english'', ''cl-english-derby'']"

text \<open>
  A settings document as \<^verbatim>\<open>JSON.parse\<close> returns it from the storage: an object whose
  fields \<^verbatim>\<open>schemaVersion\<close> (a number), \<^verbatim>\<open>perCompetition\<close> (an object from competition keys
  to arrays of category names) and \<^verbatim>\<open>enabledCategories\<close> (the array of the format before
  versioning) may each be missing. An array and an object are truthy, also when empty;
  a number is falsy when it is \<open>0\<close>.
\<close>

type_synonym per_competition = "string \<Rightarrow> string list option"

record settings_doc =
  schemaVersion :: "int option"
  perCompetition :: "per_competition option"
  enabledCategories :: "string list option"

definition DEFAULT_BIG_GAME_SETTINGS :: settings_doc where
  "DEFAULT_BIG_GAME_SETTINGS =
     \<lparr>schemaVersion = Some SETTINGS_SCHEMA_VERSION,
      perCompetition = Some (map_of
        [(''premier-league'', [''rob-lowe'', ''playoff-preview'', ''measuring-stick'', ''beat-em-off'', ''house-divided'']),
         (''champions-league'', [''cl-favorite'', ''cl-top-english'', ''cl-other-english'', ''cl-english-derby'']),
         (''fa-cup'', [''rob-lowe'', ''playoff-preview'', ''measuring-stick'', ''beat-em-off'', ''house-divided'']),
         (''league-cup'', [''rob-lowe'', ''playoff-preview'', ''measuring-stick'', ''beat-em-off'', ''house-divided'']),
         (''nba'', [''rob-lowe'', ''playoff-preview'', ''measuring-stick'', ''beat-em-off'', ''house-divided'']),
         (''nhl'', [''rob-lowe'', ''playoff-preview'', ''measuring-stick'', ''beat-em-off'', ''house-divided''])]),
      enabledCategories = None\<rparr>"

text \<open>
  The watch-party document of the session storage,
  \<^verbatim>\<open>{ teams, bigGames, showPreseason, mustWatch }\<close>, each field possibly missing.
\<close>

record watch_party =
  teams :: "team list option"
  bigGames :: "per_competition option"
  showPreseason :: "bool option"
  mustWatch :: "string list option"

text \<open>
  The state of the settings functions: the local storage at \<^verbatim>\<open>BIG_GAME_SETTINGS_KEY\<close>,
  the session storage at \<^verbatim>\<open>WATCH_PARTY_SESSION_KEY\<close>, and the two module-level caches
  \<^verbatim>\<open>_bigGameSettingsCache\<close> and \<^verbatim>\<open>_showPreseasonCache\<close> (\<open>None\<close> is \<^verbatim>\<open>null\<close>).
\<close>

record settings_state =
  localStorage :: "settings_doc storage"
  sessionStorage :: "watch_party storage"
  bigGameSettingsCache :: "settings_doc option"
  showPreseasonCache :: "bool option"

definition invalidateSettingsCache :: "settings_state \<Rightarrow> settings_state" where
  "invalidateSettingsCache st = st\<lparr>bigGameSettingsCache := None, showPreseasonCache := None\<rparr>"

definition getWatchPartySession :: "settings_state \<Rightarrow> watch_party option" where
  "getWatchPartySession st =
     (case getItem (sessionStorage st) WATCH_PARTY_SESSION_KEY of
        Inl e \<Rightarrow> None
      | Inr saved \<Rightarrow>
          if truthy_item saved then
            (case saved of
               None \<Rightarrow> None
             | Some i \<Rightarrow> (case JSON_parse i of Inl e \<Rightarrow> None | Inr wp \<Rightarrow> Some wp))
          else None)"

text \<open>
  \<^verbatim>\<open>saveBigGameSettings(settings)\<close>: the cache is set first, then the write, which may
  throw (\<open>Inl\<close>).
\<close>

definition saveBigGameSettings :: "settings_doc \<Rightarrow> settings_state \<Rightarrow> (js_error + unit) \<times> settings_state" where
  "saveBigGameSettings settings st =
     (let st1 = st\<lparr>bigGameSettingsCache := Some settings\<rparr>
      in case setItem (localStorage st1) BIG_GAME_SETTINGS_KEY settings of
           Inl e \<Rightarrow> (Inl e, st1)
         | Inr ls' \<Rightarrow> (Inr (), st1\<lparr>localStorage := ls'\<rparr>))"

text \<open>
  The three loops over \<^verbatim>\<open>Object.keys(COMPETITIONS)\<close>, each as a recursion over the list of
  keys. The first copies the old flat list to every competition; the second adds the
  default list of a competition that has no entry and notes that a save is needed; the
  third appends \<^verbatim>\<open>'playoff-preview'\<close> where the list lacks it, and throws where there is no
  list to call \<^verbatim>\<open>includes\<close> on.
\<close>

fun apply_to_all :: "string list \<Rightarrow> string list \<Rightarrow> per_competition \<Rightarrow> per_competition" where
  "apply_to_all [] cats pc = pc"
| "apply_to_all (competition # rest) cats pc = apply_to_all rest cats (pc(competition \<mapsto> cats))"

definition default_categories :: "string \<Rightarrow> string list" where
  "default_categories competition =
     (if competition = ''champions-league'' then CL_CATEGORIES else ALL_CATEGORIES)"

fun ensure_competitions :: "string list \<Rightarrow> per_competition \<Rightarrow> bool \<Rightarrow> per_competition \<times> bool" where
  "ensure_competitions [] pc needsSave = (pc, needsSave)"
| "ensure_competitions (competition # rest) pc needsSave =
     (if pc competition = None
      then ensure_competitions rest (pc(competition \<mapsto> default_categories competition)) True
      else ensure_competitions rest pc needsSave)"

fun add_playoff_preview :: "string list \<Rightarrow> per_competition \<Rightarrow> js_error + per_competition" where
  "add_playoff_preview [] pc = Inr pc"
| "add_playoff_preview (competition # rest) pc =
     (case pc competition of
        None \<Rightarrow> Inl TypeError
      | Some l \<Rightarrow>
          if js_includes l ''playoff-preview'' then add_playoff_preview rest pc
          else add_playoff_preview rest (pc(competition \<mapsto> l @ [''playoff-preview''])))"

text \<open>How a block of statements ends: with \<^verbatim>\<open>return\<close>, with an exception, or by running off its end.\<close>

datatype 'a completion = Return 'a | Throw js_error | Normal

text \<open>\<^verbatim>\<open>parsed.schemaVersion || 1\<close>\<close>

definition savedVersion_of :: "settings_doc \<Rightarrow> int" where
  "savedVersion_of parsed =
     (case schemaVersion parsed of None \<Rightarrow> 1 | Some v \<Rightarrow> if v = 0 then 1 else v)"

text \<open>The branch for the format before versioning (\<^verbatim>\<open>enabledCategories\<close> at the root).\<close>

definition migrate_legacy :: "string list \<Rightarrow> settings_state \<Rightarrow> settings_doc completion \<times> settings_state" where
  "migrate_legacy cats st =
     (let migratedSettings =
            \<lparr>schemaVersion = Some SETTINGS_SCHEMA_VERSION,
             perCompetition = Some (apply_to_all COMPETITIONS_keys cats (\<lambda>k. None)),
             enabledCategories = None\<rparr>
      in case saveBigGameSettings migratedSettings st of
           (Inl e, st1) \<Rightarrow> (Throw e, st1)
         | (Inr u, st1) \<Rightarrow> (Return migratedSettings, st1\<lparr>bigGameSettingsCache := Some migratedSettings\<rparr>))"

text \<open>The branch for a document with \<^verbatim>\<open>perCompetition\<close>; \<open>pc0\<close> is that field of \<open>parsed\<close>.\<close>

definition migrate_versioned ::
  "settings_doc \<Rightarrow> per_competition \<Rightarrow> settings_state \<Rightarrow> settings_doc completion \<times> settings_state" where
  "migrate_versioned parsed pc0 st =
     (let savedVersion = savedVersion_of parsed;
          (pc1, needsSave1) = ensure_competitions COMPETITIONS_keys pc0 False
      in case (if savedVersion < 2 then add_playoff_preview COMPETITIONS_keys pc1 else Inr pc1) of
           Inl e \<Rightarrow> (Throw e, st)
         | Inr pc2 \<Rightarrow>
             (let needsSave2 = (needsSave1 \<or> savedVersion < 2);
                  pc3 = (if savedVersion < 3 then pc2(''champions-league'' \<mapsto> CL_CATEGORIES) else pc2);
                  needsSave3 = (needsSave2 \<or> savedVersion < 3);
                  migrated = parsed\<lparr>perCompetition := Some pc3\<rparr>
              in if needsSave3 \<or> savedVersion < SETTINGS_SCHEMA_VERSION then
                   (let stamped = migrated\<lparr>schemaVersion := Some SETTINGS_SCHEMA_VERSION\<rparr>
                    in case saveBigGameSettings stamped st of
                         (Inl e, st1) \<Rightarrow> (Throw e, st1)
                       | (Inr u, st1) \<Rightarrow> (Return stamped, st1\<lparr>bigGameSettingsCache := Some stamped\<rparr>))
                 else (Return migrated, st\<lparr>bigGameSettingsCache := Some migrated\<rparr>)))"

text \<open>The body of the \<^verbatim>\<open>try\<close> block of \<^verbatim>\<open>getBigGameSettings\<close>.\<close>

definition load_settings :: "settings_state \<Rightarrow> settings_doc completion \<times> settings_state" where
  "load_settings st =
     (case getItem (localStorage st) BIG_GAME_SETTINGS_KEY of
        Inl e \<Rightarrow> (Throw e, st)
      | Inr saved \<Rightarrow>
          if truthy_item saved then
            (case saved of
               None \<Rightarrow> (Normal, st)
             | Some i \<Rightarrow>
                 (case JSON_parse i of
                    Inl e \<Rightarrow> (Throw e, st)
                  | Inr parsed \<Rightarrow>
                      (case (enabledCategories parsed, perCompetition parsed) of
                         (Some cats, None) \<Rightarrow> migrate_legacy cats st
                       | (_, Some pc0) \<Rightarrow> migrate_versioned parsed pc0 st
                       | (None, None) \<Rightarrow> (Normal, st))))
          else (Normal, st))"

text \<open>\<^verbatim>\<open>watchParty && watchParty.bigGames\<close>: the overlay map when a session with one is present.\<close>

definition overlay :: "settings_state \<Rightarrow> per_competition option" where
  "overlay st = (case getWatchPartySession st of None \<Rightarrow> None | Some watchParty \<Rightarrow> bigGames watchParty)"

definition getBigGameSettings :: "settings_state \<Rightarrow> settings_doc \<times> settings_state" where
  "getBigGameSettings st =
     (case overlay st of
        Some bg \<Rightarrow>
          (\<lparr>schemaVersion = Some SETTINGS_SCHEMA_VERSION, perCompetition = Some bg,
            enabledCategories = None\<rparr>, st)
      | None \<Rightarrow>
          (case bigGameSettingsCache st of
             Some cached \<Rightarrow> (cached, st)
           | None \<Rightarrow>
               (case load_settings st of
                  (Return settings, st1) \<Rightarrow> (settings, st1)
                | (_, st1) \<Rightarrow>
                    (let defaultCopy = DEFAULT_BIG_GAME_SETTINGS
                     in (defaultCopy, st1\<lparr>bigGameSettingsCache := Some defaultCopy\<rparr>)))))"

text \<open>Every key of \<^verbatim>\<open>COMPETITIONS\<close> has an entry in the document's \<^verbatim>\<open>perCompetition\<close>.\<close>

definition covers_competitions :: "per_competition \<Rightarrow> bool" where
  "covers_competitions pc = (\<forall>competition \<in> set COMPETITIONS_keys. pc competition \<noteq> None)"

definition all_competitions_present :: "settings_doc \<Rightarrow> bool" where
  "all_competitions_present d =
     (case perCompetition d of None \<Rightarrow> False | Some pc \<Rightarrow> covers_competitions pc)"

text \<open>A page that has just loaded: empty caches, given items in the two storages.\<close>

definition fresh_page :: "settings_doc item option \<Rightarrow> watch_party item option \<Rightarrow> settings_state" where
  "fresh_page stored session =
     \<lparr>localStorage = empty_storage\<lparr>items := (\<lambda>k. if k = BIG_GAME_SETTINGS_KEY then stored else None)\<rparr>,
      sessionStorage = empty_storage\<lparr>items := (\<lambda>k. if k = WATCH_PARTY_SESSION_KEY then session else None)\<rparr>,
      bigGameSettingsCache = None,
      showPreseasonCache = None\<rparr>"

text \<open>The same page on a local storage that is full: every \<^verbatim>\<open>setItem\<close> throws.\<close>

definition full_page :: "settings_doc item option \<Rightarrow> watch_party item option \<Rightarrow> settings_state" where
  "full_page stored session =
     (fresh_page stored session)
       \<lparr>localStorage := (localStorage (fresh_page stored session))\<lparr>quota_exceeded := True\<rparr>\<rparr>"


text \<open>\<^verbatim>\<open>settings.perCompetition[competition]\<close>\<close>

definition categories_of :: "settings_doc \<Rightarrow> string \<Rightarrow> string list option" where
  "categories_of d competition = (case perCompetition d of None \<Rightarrow> None | Some pc \<Rightarrow> pc competition)"

text \<open>The document \<^verbatim>\<open>getBigGameSettings\<close> builds around the overlay's \<^verbatim>\<open>bigGames\<close> map.\<close>

definition overlay_document :: "per_competition \<Rightarrow> settings_doc" where
  "overlay_document bg =
     \<lparr>schemaVersion = Some SETTINGS_SCHEMA_VERSION, perCompetition = Some bg, enabledCategories = None\<rparr>"

text \<open>
  What \<^verbatim>\<open>load_settings\<close> establishes from a state \<open>st\<close>: the session storage is not
  touched; a returned document is the cached one, has every competition and a current
  version, and is what the local storage now holds, either because it already did or
  because the one write wrote it; without a returned document the local storage is
  unchanged.
\<close>

definition load_post :: "settings_state \<Rightarrow> settings_doc completion \<Rightarrow> settings_state \<Rightarrow> bool" where
  "load_post st out st1 =
     (sessionStorage st1 = sessionStorage st \<and>
      (case out of
         Return d \<Rightarrow>
           bigGameSettingsCache st1 = Some d \<and> all_competitions_present d \<and> 3 \<le> savedVersion_of d
           \<and> \<not> access_denied (localStorage st1)
           \<and> items (localStorage st1) BIG_GAME_SETTINGS_KEY = Some (Json d)
           \<and> (localStorage st1 = localStorage st
              \<or> setItem (localStorage st) BIG_GAME_SETTINGS_KEY d = Inr (localStorage st1))
       | _ \<Rightarrow> localStorage st1 = localStorage st))"

text \<open>
  Documents and sessions for the scenarios: the version 1 document
  \<^verbatim>\<open>{ schemaVersion: 1, perCompetition: { 'premier-league': ['rob-lowe'] } }\<close>, and a
  watch-party session whose \<^verbatim>\<open>bigGames\<close> names one competition only.
\<close>

definition version1_document :: settings_doc where
  "version1_document =
     \<lparr>schemaVersion = Some 1,
      perCompetition = Some ((\<lambda>k. None)(''premier-league'' \<mapsto> [''rob-lowe''])),
      enabledCategories = None\<rparr>"

definition partial_party :: watch_party where
  "partial_party =
     \<lparr>teams = Some [], bigGames = Some ((\<lambda>k. None)(''premier-league'' \<mapsto> [''rob-lowe''])),
      showPreseason = Some True, mustWatch = Some []\<rparr>"


section \<open>Watch party sharing (shared.js)\<close>

text \<open>
  \<^verbatim>\<open>encodeWatchParty\<close> is \<^verbatim>\<open>btoa(JSON.stringify(settings))\<close> and \<^verbatim>\<open>decodeWatchParty\<close> is
  \<^verbatim>\<open>JSON.parse(atob(encoded))\<close>, each inside a \<^verbatim>\<open>try\<close> that answers an exception with
  \<^verbatim>\<open>null\<close>. Whether \<^verbatim>\<open>btoa\<close> accepts a text depends on its code units, so here the JSON text
  is modelled to the character: a JavaScript string is the list of its UTF-16 code units
  (numbers below 65536).
\<close>

type_synonym jsstring = "nat list"

text \<open>The code units of an ASCII string literal.\<close>

definition ascii :: "string \<Rightarrow> jsstring" where
  "ascii s = map of_char s"

subsection \<open>btoa and atob\<close>

text \<open>
  \<^verbatim>\<open>btoa\<close> throws \<^verbatim>\<open>InvalidCharacterError\<close> when a code unit is above 255, and otherwise
  writes the code units as bytes in base64 with padding. \<^verbatim>\<open>atob\<close> is the forgiving base64
  decoder of the HTML standard: ASCII whitespace is removed, one or two \<^verbatim>\<open>=\<close> are removed
  from the end of a text whose length is a multiple of four, a remaining length of one
  modulo four or a character outside the alphabet is an error, and left-over bits are
  dropped.
\<close>

definition b64_char :: "nat \<Rightarrow> nat" where
  "b64_char n =
     (if n < 26 then 65 + n else if n < 52 then 71 + n else if n < 62 then n - 4
      else if n = 62 then 43 else 47)"

definition b64_val :: "nat \<Rightarrow> nat option" where
  "b64_val c =
     (if 65 \<le> c \<and> c \<le> 90 then Some (c - 65)
      else if 97 \<le> c \<and> c \<le> 122 then Some (c - 71)
      else if 48 \<le> c \<and> c \<le> 57 then Some (c + 4)
      else if c = 43 then Some 62
      else if c = 47 then Some 63
      else None)"

fun b64_encode :: "nat list \<Rightarrow> nat list" where
  "b64_encode (a # b # c # rest) =
     b64_char (a div 4) # b64_char ((a mod 4) * 16 + b div 16)
       # b64_char ((b mod 16) * 4 + c div 64) # b64_char (c mod 64) # b64_encode rest"
| "b64_encode [a, b] =
     [b64_char (a div 4), b64_char ((a mod 4) * 16 + b div 16), b64_char ((b mod 16) * 4), 61]"
| "b64_encode [a] = [b64_char (a div 4), b64_char ((a mod 4) * 16), 61, 61]"
| "b64_encode [] = []"

definition btoa :: "jsstring \<Rightarrow> js_error + jsstring" where
  "btoa s = (if list_all (\<lambda>c. c \<le> 255) s then Inr (b64_encode s) else Inl InvalidCharacterError)"

definition ascii_whitespace :: "nat \<Rightarrow> bool" where
  "ascii_whitespace c = (c = 9 \<or> c = 10 \<or> c = 12 \<or> c = 13 \<or> c = 32)"

fun b64_vals :: "nat list \<Rightarrow> nat list option" where
  "b64_vals [] = Some []"
| "b64_vals (c # cs) =
     (case b64_val c of None \<Rightarrow> None
      | Some v \<Rightarrow> (case b64_vals cs of None \<Rightarrow> None | Some vs \<Rightarrow> Some (v # vs)))"

fun b64_decode :: "nat list \<Rightarrow> nat list" where
  "b64_decode (w # x # y # z # rest) =
     (w * 4 + x div 16) # ((x mod 16) * 16 + y div 4) # ((y mod 4) * 64 + z) # b64_decode rest"
| "b64_decode [w, x, y] = [w * 4 + x div 16, (x mod 16) * 16 + y div 4]"
| "b64_decode [w, x] = [w * 4 + x div 16]"
| "b64_decode [w] = []"
| "b64_decode [] = []"

definition strip_padding :: "nat list \<Rightarrow> nat list" where
  "strip_padding d =
     (if length d mod 4 = 0 \<and> d \<noteq> [] \<and> last d = 61
      then (if butlast d \<noteq> [] \<and> last (butlast d) = 61 then butlast (butlast d) else butlast d)
      else d)"

definition atob :: "jsstring \<Rightarrow> js_error + jsstring" where
  "atob s =
     (let d = strip_padding (filter (\<lambda>c. \<not> ascii_whitespace c) s)
      in if length d mod 4 = 1 then Inl InvalidCharacterError
         else (case b64_vals d of
                 None \<Rightarrow> Inl InvalidCharacterError
               | Some vs \<Rightarrow> Inr (b64_decode vs)))"

subsection \<open>JSON values and JSON.stringify\<close>

text \<open>
  The values \<^verbatim>\<open>JSON.parse\<close> can return. An object is the list of its properties in the
  order \<^verbatim>\<open>JSON.stringify\<close> writes them. A number is an integer (\<open>JNum\<close>, which stands for
  a JavaScript number when it is a safe integer); a number literal with a fraction or an
  exponent is kept as its text (\<open>JNumText\<close>), its floating-point value is not computed.
\<close>

datatype json =
    JNull
  | JBool bool
  | JNum int
  | JNumText jsstring
  | JString jsstring
  | JArray "json list"
  | JObject "(jsstring \<times> json) list"

text \<open>
  \<^verbatim>\<open>JSON.stringify\<close> of a string: the short escapes, \<^verbatim>\<open>\uXXXX\<close> (lower-case hexadecimal)
  for the other control characters and for a surrogate that is not part of a pair, every
  other code unit as it is.
\<close>

definition hex_digit :: "nat \<Rightarrow> nat" where
  "hex_digit d = (if d < 10 then 48 + d else 87 + d)"

definition unicode_escape :: "nat \<Rightarrow> jsstring" where
  "unicode_escape c =
     [92, 117, hex_digit (c div 4096), hex_digit (c div 256 mod 16),
      hex_digit (c div 16 mod 16), hex_digit (c mod 16)]"

definition high_surrogate :: "nat \<Rightarrow> bool" where
  "high_surrogate c = (55296 \<le> c \<and> c \<le> 56319)"

definition low_surrogate :: "nat \<Rightarrow> bool" where
  "low_surrogate c = (56320 \<le> c \<and> c \<le> 57343)"

fun quote_body :: "jsstring \<Rightarrow> jsstring" where
  "quote_body [] = []"
| "quote_body (c # cs) =
     (if c = 34 then 92 # 34 # quote_body cs
      else if c = 92 then 92 # 92 # quote_body cs
      else if c = 8 then 92 # 98 # quote_body cs
      else if c = 12 then 92 # 102 # quote_body cs
      else if c = 10 then 92 # 110 # quote_body cs
      else if c = 13 then 92 # 114 # quote_body cs
      else if c = 9 then 92 # 116 # quote_body cs
      else if c < 32 then unicode_escape c @ quote_body cs
      else if high_surrogate c then
        (case cs of
           [] \<Rightarrow> unicode_escape c
         | d # ds \<Rightarrow>
             if low_surrogate d then c # d # quote_body ds
             else unicode_escape c @ quote_body cs)
      else if low_surrogate c then unicode_escape c @ quote_body cs
      else c # quote_body cs)"

definition JSON_quote :: "jsstring \<Rightarrow> jsstring" where
  "JSON_quote s = 34 # quote_body s @ [34]"

function decimal :: "nat \<Rightarrow> jsstring" where
  "decimal n = (if n < 10 then [48 + n] else decimal (n div 10) @ [48 + n mod 10])"
  by pat_completeness auto
termination
  by (relation "measure (\<lambda>n. n)") auto

declare decimal.simps [simp del]

definition number_text :: "int \<Rightarrow> jsstring" where
  "number_text i = (if i < 0 then 45 # decimal (nat (- i)) else decimal (nat i))"

fun join_commas :: "jsstring list \<Rightarrow> jsstring" where
  "join_commas [] = []"
| "join_commas [x] = x"
| "join_commas (x # y # r) = x @ 44 # join_commas (y # r)"

fun JSON_stringify :: "json \<Rightarrow> jsstring" where
  "JSON_stringify JNull = [110, 117, 108, 108]"
| "JSON_stringify (JBool b) = (if b then [116, 114, 117, 101] else [102, 97, 108, 115, 101])"
| "JSON_stringify (JNum n) = number_text n"
| "JSON_stringify (JNumText t) = t"
| "JSON_stringify (JString s) = JSON_quote s"
| "JSON_stringify (JArray vs) = 91 # join_commas (map JSON_stringify vs) @ [93]"
| "JSON_stringify (JObject ms) =
     123 # join_commas (map (\<lambda>m. JSON_quote (fst m) @ 58 # JSON_stringify (snd m)) ms) @ [125]"

subsection \<open>JSON.parse\<close>

text \<open>
  A recursive-descent parser for the JSON grammar. \<open>parse_chars\<close> reads a string after its
  opening quote, \<open>parse_number\<close> a number. The mutually recursive parts (a value, the
  elements of an array after \<^verbatim>\<open>[\<close>, the members of an object after \<^verbatim>\<open>{\<close>) are the three
  step functions, which call \<open>rec\<close> where the parser calls itself; \<open>parse n\<close> is the
  parser with \<open>n\<close> nested calls allowed, and \<open>None\<close> is its answer when they do not
  suffice. \<open>JSON_parse_text\<close> allows twice the length of the text plus one, which always
  suffices (\<open>JSON_parse_text_returns\<close> below). \<open>Inl SyntaxError\<close> is the exception of
  \<^verbatim>\<open>JSON.parse\<close>. A repeated key keeps its place and takes the later value.
\<close>

definition json_whitespace :: "nat \<Rightarrow> bool" where
  "json_whitespace c = (c = 32 \<or> c = 9 \<or> c = 10 \<or> c = 13)"

definition skip_ws :: "jsstring \<Rightarrow> jsstring" where
  "skip_ws s = dropWhile json_whitespace s"

definition hex_value :: "nat \<Rightarrow> nat option" where
  "hex_value c =
     (if 48 \<le> c \<and> c \<le> 57 then Some (c - 48)
      else if 97 \<le> c \<and> c \<le> 102 then Some (c - 87)
      else if 65 \<le> c \<and> c \<le> 70 then Some (c - 55)
      else None)"

definition hex4 :: "nat \<Rightarrow> nat \<Rightarrow> nat \<Rightarrow> nat \<Rightarrow> nat option" where
  "hex4 a b c d =
     (case (hex_value a, hex_value b, hex_value c, hex_value d) of
        (Some w, Some x, Some y, Some z) \<Rightarrow> Some (w * 4096 + x * 256 + y * 16 + z)
      | _ \<Rightarrow> None)"

definition unescape :: "nat \<Rightarrow> nat option" where
  "unescape e =
     (if e = 34 then Some 34 else if e = 92 then Some 92 else if e = 47 then Some 47
      else if e = 98 then Some 8 else if e = 102 then Some 12 else if e = 110 then Some 10
      else if e = 114 then Some 13 else if e = 116 then Some 9 else None)"

definition cons_char :: "nat \<Rightarrow> (jsstring \<times> jsstring) option \<Rightarrow> (jsstring \<times> jsstring) option" where
  "cons_char c r = (case r of None \<Rightarrow> None | Some (s, rest) \<Rightarrow> Some (c # s, rest))"

fun parse_chars :: "jsstring \<Rightarrow> (jsstring \<times> jsstring) option" where
  "parse_chars [] = None"
| "parse_chars (c # cs) =
     (if c = 34 then Some ([], cs)
      else if c = 92 then
        (case cs of
           [] \<Rightarrow> None
         | e # es \<Rightarrow>
             if e = 117 then
               (case es of
                  h1 # h2 # h3 # h4 # r \<Rightarrow>
                    (case hex4 h1 h2 h3 h4 of
                       None \<Rightarrow> None
                     | Some u \<Rightarrow> cons_char u (parse_chars r))
                | _ \<Rightarrow> None)
             else (case unescape e of
                     None \<Rightarrow> None
                   | Some u \<Rightarrow> cons_char u (parse_chars es)))
      else if c < 32 then None
      else cons_char c (parse_chars cs))"

declare parse_chars.simps [simp del]

definition digit :: "nat \<Rightarrow> bool" where
  "digit c = (48 \<le> c \<and> c \<le> 57)"

definition digits_value :: "jsstring \<Rightarrow> nat" where
  "digits_value ds = foldl (\<lambda>a d. 10 * a + (d - 48)) 0 ds"

definition scan_sign :: "jsstring \<Rightarrow> jsstring \<times> jsstring" where
  "scan_sign s = (case s of [] \<Rightarrow> ([], s) | c # r \<Rightarrow> if c = 45 then ([45], r) else ([], s))"

definition scan_int :: "jsstring \<Rightarrow> (jsstring \<times> jsstring) option" where
  "scan_int s =
     (case s of
        [] \<Rightarrow> None
      | d # r \<Rightarrow>
          if d = 48 then Some ([48], r)
          else if digit d then Some (d # takeWhile digit r, dropWhile digit r)
          else None)"

definition scan_frac :: "jsstring \<Rightarrow> (jsstring \<times> jsstring) option" where
  "scan_frac s =
     (case s of
        [] \<Rightarrow> Some ([], s)
      | c # r \<Rightarrow>
          if c = 46 then
            (if takeWhile digit r = [] then None
             else Some (46 # takeWhile digit r, dropWhile digit r))
          else Some ([], s))"

definition scan_exp :: "jsstring \<Rightarrow> (jsstring \<times> jsstring) option" where
  "scan_exp s =
     (case s of
        [] \<Rightarrow> Some ([], s)
      | c # r \<Rightarrow>
          if c = 101 \<or> c = 69 then
            (let (sg, r1) = (case r of
                               [] \<Rightarrow> ([], r)
                             | x # r' \<Rightarrow> if x = 43 \<or> x = 45 then ([x], r') else ([], r))
             in if takeWhile digit r1 = [] then None
                else Some (c # sg @ takeWhile digit r1, dropWhile digit r1))
          else Some ([], s))"

definition parse_number :: "jsstring \<Rightarrow> (json \<times> jsstring) option" where
  "parse_number s =
     (let (sg, s1) = scan_sign s
      in case scan_int s1 of
           None \<Rightarrow> None
         | Some (ip, s2) \<Rightarrow>
             (case scan_frac s2 of
                None \<Rightarrow> None
              | Some (fp, s3) \<Rightarrow>
                  (case scan_exp s3 of
                     None \<Rightarrow> None
                   | Some (ep, s4) \<Rightarrow>
                       if fp = [] \<and> ep = [] then
                         Some (JNum (if sg = [] then int (digits_value ip) else - int (digits_value ip)), s4)
                       else Some (JNumText (sg @ ip @ fp @ ep), s4))))"

definition parse_literal :: "jsstring \<Rightarrow> json \<Rightarrow> jsstring \<Rightarrow> (js_error + json \<times> jsstring) option" where
  "parse_literal word v s =
     (if take (length word) s = word then Some (Inr (v, drop (length word) s))
      else Some (Inl SyntaxError))"

fun obj_update :: "jsstring \<Rightarrow> json \<Rightarrow> (jsstring \<times> json) list \<Rightarrow> (jsstring \<times> json) list" where
  "obj_update k v [] = [(k, v)]"
| "obj_update k v (m # ms) = (if fst m = k then (k, v) # ms else m # obj_update k v ms)"

datatype mode = Value | Elements "json list" | Members "(jsstring \<times> json) list"

type_synonym parse_result = "(js_error + json \<times> jsstring) option"

definition value_step :: "(mode \<Rightarrow> jsstring \<Rightarrow> parse_result) \<Rightarrow> jsstring \<Rightarrow> parse_result" where
  "value_step rec s =
     (case skip_ws s of
        [] \<Rightarrow> Some (Inl SyntaxError)
      | c # r \<Rightarrow>
          if c = 34 then
            (case parse_chars r of
               None \<Rightarrow> Some (Inl SyntaxError)
             | Some (str, r') \<Rightarrow> Some (Inr (JString str, r')))
          else if c = 91 then
            (case skip_ws r of
               [] \<Rightarrow> Some (Inl SyntaxError)
             | d # r' \<Rightarrow> if d = 93 then Some (Inr (JArray [], r')) else rec (Elements []) (d # r'))
          else if c = 123 then
            (case skip_ws r of
               [] \<Rightarrow> Some (Inl SyntaxError)
             | d # r' \<Rightarrow> if d = 125 then Some (Inr (JObject [], r')) else rec (Members []) (d # r'))
          else if c = 110 then parse_literal [117, 108, 108] JNull r
          else if c = 116 then parse_literal [114, 117, 101] (JBool True) r
          else if c = 102 then parse_literal [97, 108, 115, 101] (JBool False) r
          else (case parse_number (c # r) of
                  None \<Rightarrow> Some (Inl SyntaxError)
                | Some (v, r') \<Rightarrow> Some (Inr (v, r'))))"

definition elements_step ::
  "(mode \<Rightarrow> jsstring \<Rightarrow> parse_result) \<Rightarrow> json list \<Rightarrow> jsstring \<Rightarrow> parse_result" where
  "elements_step rec acc s =
     (case rec Value s of
        None \<Rightarrow> None
      | Some (Inl e) \<Rightarrow> Some (Inl e)
      | Some (Inr (v, r)) \<Rightarrow>
          (case skip_ws r of
             [] \<Rightarrow> Some (Inl SyntaxError)
           | c # r' \<Rightarrow>
               if c = 44 then rec (Elements (acc @ [v])) r'
               else if c = 93 then Some (Inr (JArray (acc @ [v]), r'))
               else Some (Inl SyntaxError)))"

definition members_step ::
  "(mode \<Rightarrow> jsstring \<Rightarrow> parse_result) \<Rightarrow> (jsstring \<times> json) list \<Rightarrow> jsstring \<Rightarrow> parse_result" where
  "members_step rec acc s =
     (case skip_ws s of
        [] \<Rightarrow> Some (Inl SyntaxError)
      | c # r \<Rightarrow>
          if c \<noteq> 34 then Some (Inl SyntaxError)
          else (case parse_chars r of
                  None \<Rightarrow> Some (Inl SyntaxError)
                | Some (k, r1) \<Rightarrow>
                    (case skip_ws r1 of
                       [] \<Rightarrow> Some (Inl SyntaxError)
                     | c1 # r2 \<Rightarrow>
                         if c1 \<noteq> 58 then Some (Inl SyntaxError)
                         else (case rec Value r2 of
                                 None \<Rightarrow> None
                               | Some (Inl e) \<Rightarrow> Some (Inl e)
                               | Some (Inr (v, r3)) \<Rightarrow>
                                   (case skip_ws r3 of
                                      [] \<Rightarrow> Some (Inl SyntaxError)
                                    | c3 # r4 \<Rightarrow>
                                        if c3 = 44 then rec (Members (obj_update k v acc)) r4
                                        else if c3 = 125 then Some (Inr (JObject (obj_update k v acc), r4))
                                        else Some (Inl SyntaxError))))))"

primrec parse :: "nat \<Rightarrow> mode \<Rightarrow> jsstring \<Rightarrow> parse_result" where
  "parse 0 m s = None"
| "parse (Suc n) m s =
     (case m of
        Value \<Rightarrow> value_step (parse n) s
      | Elements acc \<Rightarrow> elements_step (parse n) acc s
      | Members acc \<Rightarrow> members_step (parse n) acc s)"

definition JSON_parse_text :: "jsstring \<Rightarrow> (js_error + json) option" where
  "JSON_parse_text s =
     (case parse (Suc (2 * length s)) Value s of
        None \<Rightarrow> None
      | Some (Inl e) \<Rightarrow> Some (Inl e)
      | Some (Inr (v, r)) \<Rightarrow> if skip_ws r = [] then Some (Inr v) else Some (Inl SyntaxError))"

subsection \<open>encodeWatchParty and decodeWatchParty\<close>

text \<open>
  \<^verbatim>\<open>encodeWatchParty\<close> returns the token or \<^verbatim>\<open>null\<close> (\<open>None\<close>). \<^verbatim>\<open>decodeWatchParty\<close> returns
  \<open>Some (Some v)\<close> for a value, \<open>Some None\<close> for \<^verbatim>\<open>null\<close>; the outer \<open>None\<close> would be a
  parser that has not finished within its allowance.
\<close>

definition encodeWatchParty :: "json \<Rightarrow> jsstring option" where
  "encodeWatchParty settings =
     (case btoa (JSON_stringify settings) of Inl e \<Rightarrow> None | Inr token \<Rightarrow> Some token)"

definition decodeWatchParty :: "jsstring \<Rightarrow> json option option" where
  "decodeWatchParty encoded =
     (case atob encoded of
        Inl e \<Rightarrow> Some None
      | Inr decoded \<Rightarrow>
          (case JSON_parse_text decoded of
             None \<Rightarrow> None
           | Some (Inl e) \<Rightarrow> Some None
           | Some (Inr v) \<Rightarrow> Some (Some v)))"

text \<open>\<^verbatim>\<open>atob\<close> converts its argument to a string: the token \<^verbatim>\<open>null\<close> is read as the text \<^verbatim>\<open>"null"\<close>.\<close>

definition token_text :: "jsstring option \<Rightarrow> jsstring" where
  "token_text t = (case t of None \<Rightarrow> ascii ''null'' | Some s \<Rightarrow> s)"

text \<open>
  A snapshot is well formed when it is a value a JavaScript object graph can be: no
  object has a key twice, every number is a safe integer. \<open>latin1\<close> is the condition of
  \<^verbatim>\<open>btoa\<close> on a text; \<open>latin1_json\<close> is that condition on every key and string of a value.
\<close>

fun wf_json :: "json \<Rightarrow> bool" where
  "wf_json JNull = True"
| "wf_json (JBool b) = True"
| "wf_json (JNum n) = (\<bar>n\<bar> \<le> 9007199254740991)"
| "wf_json (JNumText t) = False"
| "wf_json (JString s) = True"
| "wf_json (JArray vs) = (\<forall>v \<in> set vs. wf_json v)"
| "wf_json (JObject ms) = (distinct (map fst ms) \<and> (\<forall>m \<in> set ms. wf_json (snd m)))"

definition latin1 :: "jsstring \<Rightarrow> bool" where
  "latin1 s = list_all (\<lambda>c. c \<le> 255) s"

fun latin1_json :: "json \<Rightarrow> bool" where
  "latin1_json (JString s) = latin1 s"
| "latin1_json (JNumText t) = latin1 t"
| "latin1_json (JArray vs) = (\<forall>v \<in> set vs. latin1_json v)"
| "latin1_json (JObject ms) = (\<forall>m \<in> set ms. latin1 (fst m) \<and> latin1_json (snd m))"
| "latin1_json v = True"

text \<open>
  Two snapshots of the shape \<^verbatim>\<open>{ teams, bigGames, showPreseason, mustWatch }\<close>: one in
  ASCII, and one with a team whose name has the letter U+015F, which is not Latin-1.
\<close>

definition sample_snapshot :: json where
  "sample_snapshot =
     JObject
       [(ascii ''teams'',
           JArray [JObject
             [(ascii ''name'', JString (ascii ''Everton'')),
              (ascii ''id'', JString (ascii ''368'')),
              (ascii ''league'', JString (ascii ''premier-league'')),
              (ascii ''sport'', JString (ascii ''soccer'')),
              (ascii ''espnPath'', JString (ascii ''soccer/eng.1'')),
              (ascii ''logo'', JString (ascii ''https://a.espncdn.com/i/teamlogos/soccer/500/368.png''))]]),
        (ascii ''bigGames'',
           JObject [(ascii ''premier-league'', JArray [JString (ascii ''rob-lowe''), JString (ascii ''playoff-preview'')])]),
        (ascii ''showPreseason'', JBool True),
        (ascii ''mustWatch'', JArray [JString (ascii ''401584721'')])]"

definition besiktas_snapshot :: json where
  "besiktas_snapshot =
     JObject
       [(ascii ''teams'',
           JArray [JObject
             [(ascii ''name'', JString (ascii ''Be'' @ [351] @ ascii ''ikta'' @ [351])),
              (ascii ''id'', JString (ascii ''1895'')),
              (ascii ''league'', JString (ascii ''champions-league'')),
              (ascii ''sport'', JString (ascii ''soccer'')),
              (ascii ''espnPath'', JString (ascii ''soccer/uefa.champions'')),
              (ascii ''logo'', JString (ascii ''https://a.espncdn.com/i/teamlogos/soccer/500/1895.png''))]]),
        (ascii ''bigGames'', JObject []),
        (ascii ''showPreseason'', JBool True),
        (ascii ''mustWatch'', JArray [])]"

subsection \<open>Notions used in the proofs about the parser\<close>

text \<open>
  \<open>b64_body\<close>: the sextets of a byte string without padding. \<open>number_end\<close>,
  \<open>delimited\<close>: what may follow a number, and a value, in a printed text. \<open>value_start\<close>:
  the first characters of a printed value. \<open>need v\<close>: nested calls that suffice to read
  back the text of \<open>v\<close>. \<open>consumes\<close>: a parser whose results leave less text than it was
  given. \<open>enough\<close>, \<open>returns\<close>: the allowance that suffices for a text, and a parser that
  answers within it.
\<close>

fun b64_body :: "nat list \<Rightarrow> nat list" where
  "b64_body (a # b # c # rest) =
     (a div 4) # ((a mod 4) * 16 + b div 16) # ((b mod 16) * 4 + c div 64) # (c mod 64) # b64_body rest"
| "b64_body [a, b] = [a div 4, (a mod 4) * 16 + b div 16, (b mod 16) * 4]"
| "b64_body [a] = [a div 4, (a mod 4) * 16]"
| "b64_body [] = []"

definition number_end :: "jsstring \<Rightarrow> bool" where
  "number_end rest = (case rest of [] \<Rightarrow> True | c # _ \<Rightarrow> \<not> digit c \<and> c \<noteq> 46 \<and> c \<noteq> 101 \<and> c \<noteq> 69)"

definition delimited :: "jsstring \<Rightarrow> bool" where
  "delimited rest = (case rest of [] \<Rightarrow> True | c # _ \<Rightarrow> c = 44 \<or> c = 93 \<or> c = 125)"

definition value_start :: "nat \<Rightarrow> bool" where
  "value_start c = (c = 110 \<or> c = 116 \<or> c = 102 \<or> c = 45 \<or> digit c \<or> c = 34 \<or> c = 91 \<or> c = 123)"

fun need :: "json \<Rightarrow> nat" where
  "need (JArray vs) = Suc (sum_list (map (\<lambda>v. Suc (need v)) vs))"
| "need (JObject ms) = Suc (sum_list (map (\<lambda>m. Suc (need (snd m))) ms))"
| "need v = 1"

definition consumes :: "(mode \<Rightarrow> jsstring \<Rightarrow> parse_result) \<Rightarrow> bool" where
  "consumes rec = (\<forall>m s v r. rec m s = Some (Inr (v, r)) \<longrightarrow> length r < length s)"

definition enough :: "nat \<Rightarrow> mode \<Rightarrow> jsstring \<Rightarrow> bool" where
  "enough n m s = (case m of Value \<Rightarrow> 2 * length s < n | _ \<Rightarrow> 2 * length s + 1 < n)"

definition returns :: "nat \<Rightarrow> (mode \<Rightarrow> jsstring \<Rightarrow> parse_result) \<Rightarrow> bool" where
  "returns n rec = (\<forall>m s. enough n m s \<longrightarrow> rec m s \<noteq> None)"

section \<open>Team and game categorization: properties\<close>

lemma levels_distinct:
  "TOP_TIER \<noteq> THINKIN_SUPEY" "TOP_TIER \<noteq> YA_NEVER_KNOW" "THINKIN_SUPEY \<noteq> YA_NEVER_KNOW"
  "THINKIN_SUPEY \<noteq> TOP_TIER" "YA_NEVER_KNOW \<noteq> TOP_TIER" "YA_NEVER_KNOW \<noteq> THINKIN_SUPEY"
  "TOP_TIER \<noteq> []" "THINKIN_SUPEY \<noteq> []" "YA_NEVER_KNOW \<noteq> []"
  by (simp_all add: level_defs)

lemma categories_distinct:
  "PLAYOFF_PREVIEW \<noteq> ROB_LOWE" "ROB_LOWE \<noteq> PLAYOFF_PREVIEW"
  by (simp_all add: category_defs)

text \<open>
  C1. For every pair of tiers drawn from null, top-tier, thinkin-supey and ya-never-know,
  \<^verbatim>\<open>categorizeGame\<close> returns the result of the ordered rule table; a top-tier against
  thinkin-supey pair is a playoff preview and not a Rob Lowe game in either order; and the
  result does not change when home and away are swapped.
\<close>

theorem categorizeGame_rule_table:
  assumes "h \<in> tiers" and "a \<in> tiers"
  shows "categorizeGame h a = rule_table h a
       \<and> categorizeGame (Some TOP_TIER) (Some THINKIN_SUPEY) = Some PLAYOFF_PREVIEW
       \<and> categorizeGame (Some THINKIN_SUPEY) (Some TOP_TIER) = Some PLAYOFF_PREVIEW
       \<and> categorizeGame (Some TOP_TIER) (Some THINKIN_SUPEY) \<noteq> Some ROB_LOWE
       \<and> categorizeGame (Some THINKIN_SUPEY) (Some TOP_TIER) \<noteq> Some ROB_LOWE
       \<and> categorizeGame h a = categorizeGame a h"
proof -
  have table: "categorizeGame h a = rule_table h a"
    using assms
    by (auto simp: tiers_def categorizeGame_def rule_table_def favorite_tier_def
        one_side_other_def falsy_def Let_def levels_distinct)
  have pp1: "categorizeGame (Some TOP_TIER) (Some THINKIN_SUPEY) = Some PLAYOFF_PREVIEW"
    by (simp add: categorizeGame_def Let_def levels_distinct)
  have pp2: "categorizeGame (Some THINKIN_SUPEY) (Some TOP_TIER) = Some PLAYOFF_PREVIEW"
    by (simp add: categorizeGame_def Let_def levels_distinct)
  have sym: "categorizeGame h a = categorizeGame a h"
    by (auto simp: categorizeGame_def Let_def)
  from table pp1 pp2 sym show ?thesis
    by (simp add: categories_distinct)
qed

theorem categorizeGame_rule_table_witness:
  "Some YA_NEVER_KNOW \<in> tiers \<and> None \<in> tiers
   \<and> categorizeGame (Some YA_NEVER_KNOW) None = Some BEAT_EM_OFF
   \<and> categorizeGame None (Some YA_NEVER_KNOW) = Some BEAT_EM_OFF"
proof -
  have h: "Some YA_NEVER_KNOW \<in> tiers" and a: "None \<in> tiers"
    by (simp_all add: tiers_def)
  have r: "rule_table (Some YA_NEVER_KNOW) None = Some BEAT_EM_OFF"
    by (simp add: rule_table_def favorite_tier_def one_side_other_def levels_distinct)
  note t = categorizeGame_rule_table [OF h a]
  from t have e1: "categorizeGame (Some YA_NEVER_KNOW) None = rule_table (Some YA_NEVER_KNOW) None"
    by (rule conjunct1)
  from t have e2: "categorizeGame (Some YA_NEVER_KNOW) None = categorizeGame None (Some YA_NEVER_KNOW)"
    by blast
  show ?thesis
    by (simp add: e2 [symmetric] e1 r h a)
qed

text \<open>
  C2. \<^verbatim>\<open>categorizeTeam\<close> is a total function of its arguments, whatever the numbers among the
  ids are and however they print. After \<^verbatim>\<open>String\<close> has normalised the id and both lists, a
  team in both lists is thinkin-supey, a team in the favorites only is ya-never-know, a team
  in the top tier only is top-tier, and a team in neither gets \<^verbatim>\<open>null\<close>. A team in both lists
  is never top-tier or ya-never-know, and with both lists empty every team gets \<^verbatim>\<open>null\<close>.
\<close>

theorem categorizeTeam_cases:
  "categorizeTeam Number_toString t tops favs =
     (if String Number_toString t \<in> String Number_toString ` set tops
         \<and> String Number_toString t \<in> String Number_toString ` set favs then Some THINKIN_SUPEY
      else if String Number_toString t \<in> String Number_toString ` set favs then Some YA_NEVER_KNOW
      else if String Number_toString t \<in> String Number_toString ` set tops then Some TOP_TIER
      else None)
   \<and> (String Number_toString t \<in> String Number_toString ` set tops
       \<and> String Number_toString t \<in> String Number_toString ` set favs \<longrightarrow>
        categorizeTeam Number_toString t tops favs \<noteq> Some TOP_TIER
      \<and> categorizeTeam Number_toString t tops favs \<noteq> Some YA_NEVER_KNOW)
   \<and> categorizeTeam Number_toString t [] [] = None"
  by (simp add: categorizeTeam_def js_includes_def Let_def levels_distinct)

theorem categorizeTeam_cases_witness:
  "String safe_integer_toString (IdNum (Abs_safe_integer 55))
     \<in> String safe_integer_toString ` set [IdStr ''55'', IdNum (Abs_safe_integer 10)]
   \<and> String safe_integer_toString (IdNum (Abs_safe_integer 55))
     \<in> String safe_integer_toString ` set [IdStr ''55'']
   \<and> categorizeTeam safe_integer_toString (IdNum (Abs_safe_integer 55))
        [IdStr ''55'', IdNum (Abs_safe_integer 10)] [IdStr ''55''] = Some THINKIN_SUPEY
   \<and> categorizeTeam safe_integer_toString (IdNum (Abs_safe_integer 55))
        [IdStr ''55'', IdNum (Abs_safe_integer 10)] [IdStr ''55''] \<noteq> Some TOP_TIER"
proof -
  have s: "safe_integer_toString (Abs_safe_integer 55) = ''55''"
    by (simp add: safe_integer_toString_def Abs_safe_integer_inverse string_of_int_def
        string_of_nat.simps digit_char_def)
  have m1: "String safe_integer_toString (IdNum (Abs_safe_integer 55))
      \<in> String safe_integer_toString ` set [IdStr ''55'', IdNum (Abs_safe_integer 10)]"
    by (simp add: s)
  have m2: "String safe_integer_toString (IdNum (Abs_safe_integer 55))
      \<in> String safe_integer_toString ` set [IdStr ''55'']"
    by (simp add: s)
  from categorizeTeam_cases [of safe_integer_toString "IdNum (Abs_safe_integer 55)"
      "[IdStr ''55'', IdNum (Abs_safe_integer 10)]" "[IdStr ''55'']"] m1 m2
  show ?thesis
    by (simp add: levels_distinct)
qed

section \<open>Cache: properties\<close>

lemma getCached_after_setCache:
  assumes "working ls"
  shows "getCached tr key (setCache tw key v (Some n) ls) =
     (if tr - tw < ttl_or_default (Some n) then (Some v, setCache tw key v (Some n) ls)
      else (None, (setCache tw key v (Some n) ls)
                    \<lparr>items := (items (setCache tw key v (Some n) ls))(CACHE_KEY_PREFIX @ key := None)\<rparr>))"
  using assms
  by (simp add: getCached_def setCache_def setItem_def getItem_def removeItem_def working_def
      truthy_item_def JSON_parse_def Let_def)

lemma getCached_unreadable:
  assumes "access_denied ls \<or> items ls (CACHE_KEY_PREFIX @ key) = Some Unparseable"
  shows "getCached now key ls = (None, ls)"
  using assms
  by (auto simp: getCached_def getItem_def truthy_item_def JSON_parse_def)

text \<open>
  C7. On a storage that takes the write, \<^verbatim>\<open>setCache(key, value, ttl)\<close> with a positive ttl at
  time \<open>tw\<close> followed by \<^verbatim>\<open>getCached(key)\<close> at time \<open>tr\<close> returns the value while
  \<open>tr - tw < ttl\<close> and leaves the storage as it is; once \<open>tr - tw \<ge> ttl\<close> it returns \<^verbatim>\<open>null\<close>
  and the entry is gone from the storage. When the stored text is not JSON, or the read
  throws, \<^verbatim>\<open>getCached\<close> returns \<^verbatim>\<open>null\<close>: the result type has no exception, every throw of
  the body is caught.
\<close>

theorem cache_expiry:
  "(working ls \<and> 0 < n \<and> tr - tw < n \<longrightarrow>
      getCached tr key (setCache tw key v (Some n) ls) = (Some v, setCache tw key v (Some n) ls))
   \<and> (working ls \<and> 0 < n \<and> tr - tw \<ge> n \<longrightarrow>
      fst (getCached tr key (setCache tw key v (Some n) ls)) = None
      \<and> items (snd (getCached tr key (setCache tw key v (Some n) ls))) (CACHE_KEY_PREFIX @ key) = None)
   \<and> (access_denied ls' \<or> items ls' (CACHE_KEY_PREFIX @ key) = Some Unparseable \<longrightarrow>
      getCached tr key ls' = (None, ls'))"
  by (simp add: getCached_after_setCache getCached_unreadable ttl_or_default_def)

theorem cache_expiry_witness:
  "working (empty_storage :: nat cache_entry storage) \<and> (0::int) < 1 \<and> (1000::int) - 1000 < 1
   \<and> (1002::int) - 1000 \<ge> 1
   \<and> fst (getCached 1000 ''k'' (setCache 1000 ''k'' (7::nat) (Some 1) empty_storage)) = Some 7
   \<and> fst (getCached 1002 ''k'' (setCache 1000 ''k'' (7::nat) (Some 1) empty_storage)) = None
   \<and> items (snd (getCached 1002 ''k'' (setCache 1000 ''k'' (7::nat) (Some 1) empty_storage)))
        (CACHE_KEY_PREFIX @ ''k'') = None
   \<and> access_denied ((empty_storage :: nat cache_entry storage)\<lparr>access_denied := True\<rparr>)
   \<and> fst (getCached 1002 ''k'' ((empty_storage :: nat cache_entry storage)\<lparr>access_denied := True\<rparr>)) = None"
proof -
  have w: "working (empty_storage :: nat cache_entry storage)"
    by (simp add: working_def empty_storage_def)
  have d: "access_denied ((empty_storage :: nat cache_entry storage)\<lparr>access_denied := True\<rparr>)"
    by simp
  from cache_expiry [where ls = "empty_storage :: nat cache_entry storage" and n = 1
      and tr = 1000 and tw = 1000 and key = "''k''" and v = 7
      and ls' = "(empty_storage :: nat cache_entry storage)\<lparr>access_denied := True\<rparr>"]
    cache_expiry [where ls = "empty_storage :: nat cache_entry storage" and n = 1
      and tr = 1002 and tw = 1000 and key = "''k''" and v = 7
      and ls' = "(empty_storage :: nat cache_entry storage)\<lparr>access_denied := True\<rparr>"] w d
  show ?thesis
    by simp
qed

text \<open>
  C10. A stored entry whose ttl is falsy (missing, \<^verbatim>\<open>null\<close> or \<open>0\<close>) is checked against the
  24-hour \<^verbatim>\<open>DEFAULT_TTL\<close>: \<^verbatim>\<open>getCached\<close> returns its data while \<open>now - timestamp\<close> is below
  \<open>86400000\<close> and removes it after that. In particular \<^verbatim>\<open>setCache(key, data, 0)\<close> does not
  expire at once but is served for 24 hours after the write.
\<close>

theorem cache_falsy_ttl:
  "DEFAULT_TTL = 86400000
   \<and> (\<not> access_denied ls \<and> items ls (CACHE_KEY_PREFIX @ key) = Some (Json entry)
      \<and> (ttl entry = None \<or> ttl entry = Some 0) \<longrightarrow>
        getCached now key ls =
          (if now - timestamp entry < DEFAULT_TTL then (Some (data entry), ls)
           else (None, ls\<lparr>items := (items ls)(CACHE_KEY_PREFIX @ key := None)\<rparr>)))
   \<and> (working ls' \<and> tr - tw < DEFAULT_TTL \<longrightarrow>
        getCached tr key (setCache tw key v (Some 0) ls') = (Some v, setCache tw key v (Some 0) ls'))"
proof -
  have a: "DEFAULT_TTL = 86400000"
    by (simp add: DEFAULT_TTL_def)
  have b: "getCached now key ls =
          (if now - timestamp entry < DEFAULT_TTL then (Some (data entry), ls)
           else (None, ls\<lparr>items := (items ls)(CACHE_KEY_PREFIX @ key := None)\<rparr>))"
    if "\<not> access_denied ls" "items ls (CACHE_KEY_PREFIX @ key) = Some (Json entry)"
      "ttl entry = None \<or> ttl entry = Some 0"
    using that
    by (auto simp: getCached_def getItem_def removeItem_def truthy_item_def JSON_parse_def
        ttl_or_default_def Let_def)
  have c: "getCached tr key (setCache tw key v (Some 0) ls') = (Some v, setCache tw key v (Some 0) ls')"
    if "working ls'" "tr - tw < DEFAULT_TTL"
    using that by (simp add: getCached_after_setCache ttl_or_default_def)
  from a b c show ?thesis
    by blast
qed

theorem cache_falsy_ttl_witness:
  "\<not> access_denied stale_free_entry
   \<and> items stale_free_entry (CACHE_KEY_PREFIX @ ''k'') = Some (Json \<lparr>timestamp = 1000, data = 7, ttl = None\<rparr>)
   \<and> fst (getCached 86400999 ''k'' stale_free_entry) = Some 7
   \<and> fst (getCached 86401000 ''k'' stale_free_entry) = None
   \<and> working (empty_storage :: nat cache_entry storage) \<and> (1000::int) - 1000 < DEFAULT_TTL
   \<and> fst (getCached 1000 ''k'' (setCache 1000 ''k'' (7::nat) (Some 0) empty_storage)) = Some 7"
proof -
  have w: "working (empty_storage :: nat cache_entry storage)"
    by (simp add: working_def empty_storage_def)
  have t: "(1000::int) - 1000 < DEFAULT_TTL"
    by (simp add: DEFAULT_TTL_def)
  have a: "\<not> access_denied stale_free_entry"
    and i: "items stale_free_entry (CACHE_KEY_PREFIX @ ''k'')
        = Some (Json \<lparr>timestamp = 1000, data = 7, ttl = None\<rparr>)"
    by (simp_all add: stale_free_entry_def empty_storage_def)
  note c1 = cache_falsy_ttl [where ls' = "empty_storage :: nat cache_entry storage"
      and tr = 1000 and tw = 1000 and key = "''k''" and v = 7
      and ls = stale_free_entry and now = 86400999
      and entry = "\<lparr>timestamp = 1000, data = 7, ttl = None\<rparr>"]
  note c2 = cache_falsy_ttl [where ls' = "empty_storage :: nat cache_entry storage"
      and tr = 1000 and tw = 1000 and key = "''k''" and v = 7
      and ls = stale_free_entry and now = 86401000
      and entry = "\<lparr>timestamp = 1000, data = 7, ttl = None\<rparr>"]
  from c1 a i have r1: "fst (getCached 86400999 ''k'' stale_free_entry) = Some 7"
    by (simp add: DEFAULT_TTL_def)
  from c2 a i have r2: "fst (getCached 86401000 ''k'' stale_free_entry) = None"
    by (simp add: DEFAULT_TTL_def)
  from c1 w t have r3: "fst (getCached 1000 ''k'' (setCache 1000 ''k'' (7::nat) (Some 0) empty_storage)) = Some 7"
    by simp
  from a i r1 r2 w t r3 show ?thesis
    by simp
qed

section \<open>Favorite teams: properties\<close>

lemma current_favorites_stored:
  assumes "\<not> access_denied (fav_storage st)" and "the_persisted st = Some (Json l)" and "l \<noteq> []"
  shows "current_favorites st = l"
  using assms
  by (simp add: current_favorites_def getFavoriteTeams_def getItem_def truthy_item_def
      JSON_parse_def deref_def the_persisted_def)

lemma current_favorites_default:
  assumes "access_denied (fav_storage st) \<or> the_persisted st \<in> {None, Some EmptyString, Some Unparseable, Some (Json [])}"
  shows "current_favorites st = DEFAULT_TEAMS st"
  using assms
  by (auto simp: current_favorites_def getFavoriteTeams_def getItem_def truthy_item_def
      JSON_parse_def deref_def the_persisted_def)

lemma addFavoriteTeam_full:
  assumes "length (current_favorites st) \<ge> MAX_TEAMS"
  shows "fst (addFavoriteTeam x st) = Inr False"
    and "fav_storage (snd (addFavoriteTeam x st)) = fav_storage st"
    and "DEFAULT_TEAMS (snd (addFavoriteTeam x st)) = DEFAULT_TEAMS st"
  using assms by (simp_all add: addFavoriteTeam_def current_favorites_def Let_def)

lemma addFavoriteTeam_present:
  assumes "length (current_favorites st) < MAX_TEAMS"
    and "\<exists>t \<in> set (current_favorites st). team_id t = team_id x \<and> league t = league x"
  shows "addFavoriteTeam x st = (Inr False, st)"
  using assms
  by (auto simp: addFavoriteTeam_def current_favorites_def Let_def list_ex_iff same_team_def)

lemma addFavoriteTeam_appends:
  assumes "length (current_favorites st) < MAX_TEAMS"
    and "\<not> (\<exists>t \<in> set (current_favorites st). team_id t = team_id x \<and> league t = league x)"
    and "working (fav_storage st)"
  shows "fst (addFavoriteTeam x st) = Inr True"
    and "the_persisted (snd (addFavoriteTeam x st)) = Some (Json (current_favorites st @ [x]))"
  using assms
  by (auto simp: addFavoriteTeam_def current_favorites_def Let_def list_ex_iff same_team_def
      saveFavoriteTeams_def setItem_def working_def the_persisted_def split: teams_ref.splits)

text \<open>
  C9, as the code has it. The list \<^verbatim>\<open>addFavoriteTeam\<close> works on is the stored list when
  a non-empty array is stored and readable, and the array \<^verbatim>\<open>DEFAULT_TEAMS\<close> when nothing,
  an empty array or an unreadable text is stored. On that list: with \<open>MAX_TEAMS\<close> or more
  teams the call returns \<^verbatim>\<open>false\<close> and changes neither the storage nor \<^verbatim>\<open>DEFAULT_TEAMS\<close>;
  with a team of the same id and league in it the call returns \<^verbatim>\<open>false\<close> and changes
  nothing; in every other case, on a storage that takes the write, it returns \<^verbatim>\<open>true\<close> and
  the stored list is that list with the team appended.
\<close>

theorem addFavoriteTeam_capacity:
  "(length (current_favorites st) \<ge> MAX_TEAMS \<longrightarrow>
      fst (addFavoriteTeam x st) = Inr False
      \<and> fav_storage (snd (addFavoriteTeam x st)) = fav_storage st
      \<and> DEFAULT_TEAMS (snd (addFavoriteTeam x st)) = DEFAULT_TEAMS st)
   \<and> (length (current_favorites st) < MAX_TEAMS
      \<and> (\<exists>t \<in> set (current_favorites st). team_id t = team_id x \<and> league t = league x) \<longrightarrow>
      addFavoriteTeam x st = (Inr False, st))
   \<and> (length (current_favorites st) < MAX_TEAMS
      \<and> \<not> (\<exists>t \<in> set (current_favorites st). team_id t = team_id x \<and> league t = league x)
      \<and> working (fav_storage st) \<longrightarrow>
      fst (addFavoriteTeam x st) = Inr True
      \<and> the_persisted (snd (addFavoriteTeam x st)) = Some (Json (current_favorites st @ [x])))
   \<and> (\<not> access_denied (fav_storage st) \<and> the_persisted st = Some (Json l) \<and> l \<noteq> [] \<longrightarrow>
      current_favorites st = l)
   \<and> (access_denied (fav_storage st)
      \<or> the_persisted st \<in> {None, Some EmptyString, Some Unparseable, Some (Json [])} \<longrightarrow>
      current_favorites st = DEFAULT_TEAMS st)"
  using addFavoriteTeam_full [of st x] addFavoriteTeam_present [of st x]
    addFavoriteTeam_appends [of st x] current_favorites_stored [of st l]
    current_favorites_default [of st]
  by blast

lemma fresh_favorites_simps:
  "the_persisted (fresh_favorites i) = i"
  "working (fav_storage (fresh_favorites i))"
  "\<not> access_denied (fav_storage (fresh_favorites i))"
  "DEFAULT_TEAMS (fresh_favorites i) = DEFAULT_TEAMS_literal"
  by (simp_all add: fresh_favorites_def the_persisted_def empty_storage_def working_def)

lemma teams_differ:
  "team_id everton \<noteq> team_id arsenal" "team_id arsenal \<noteq> team_id everton"
  "everton \<in> set DEFAULT_TEAMS_literal" "length DEFAULT_TEAMS_literal = 4"
  "\<forall>t \<in> set DEFAULT_TEAMS_literal. team_id t \<noteq> team_id arsenal"
  by (simp_all add: everton_def arsenal_def DEFAULT_TEAMS_literal_def)

theorem addFavoriteTeam_capacity_witness:
  "length (current_favorites (fresh_favorites (Some (Json (replicate 10 everton))))) \<ge> MAX_TEAMS
   \<and> fst (addFavoriteTeam arsenal (fresh_favorites (Some (Json (replicate 10 everton))))) = Inr False
   \<and> length (current_favorites (fresh_favorites None)) < MAX_TEAMS
   \<and> (\<exists>t \<in> set (current_favorites (fresh_favorites None)).
         team_id t = team_id everton \<and> league t = league everton)
   \<and> addFavoriteTeam everton (fresh_favorites None) = (Inr False, fresh_favorites None)
   \<and> length (current_favorites (fresh_favorites (Some (Json [everton])))) < MAX_TEAMS
   \<and> \<not> (\<exists>t \<in> set (current_favorites (fresh_favorites (Some (Json [everton])))).
         team_id t = team_id arsenal \<and> league t = league arsenal)
   \<and> working (fav_storage (fresh_favorites (Some (Json [everton]))))
   \<and> fst (addFavoriteTeam arsenal (fresh_favorites (Some (Json [everton])))) = Inr True
   \<and> the_persisted (snd (addFavoriteTeam arsenal (fresh_favorites (Some (Json [everton])))))
       = Some (Json [everton, arsenal])"
proof -
  have c10: "current_favorites (fresh_favorites (Some (Json (replicate 10 everton)))) = replicate 10 everton"
    by (rule current_favorites_stored) (simp_all add: fresh_favorites_simps)
  have c0: "current_favorites (fresh_favorites None) = DEFAULT_TEAMS_literal"
    using current_favorites_default [of "fresh_favorites None"] by (simp add: fresh_favorites_simps)
  have c1: "current_favorites (fresh_favorites (Some (Json [everton]))) = [everton]"
    by (rule current_favorites_stored) (simp_all add: fresh_favorites_simps)
  have h1: "length (current_favorites (fresh_favorites (Some (Json (replicate 10 everton))))) \<ge> MAX_TEAMS"
    by (simp add: c10 MAX_TEAMS_def)
  have h2: "length (current_favorites (fresh_favorites None)) < MAX_TEAMS"
    by (simp add: c0 teams_differ MAX_TEAMS_def)
  have h3: "\<exists>t \<in> set (current_favorites (fresh_favorites None)).
         team_id t = team_id everton \<and> league t = league everton"
    using teams_differ(3) by (auto simp: c0)
  have h4: "length (current_favorites (fresh_favorites (Some (Json [everton])))) < MAX_TEAMS"
    by (simp add: c1 MAX_TEAMS_def)
  have h5: "\<not> (\<exists>t \<in> set (current_favorites (fresh_favorites (Some (Json [everton])))).
         team_id t = team_id arsenal \<and> league t = league arsenal)"
    by (simp add: c1 teams_differ)
  have h6: "working (fav_storage (fresh_favorites (Some (Json [everton]))))"
    by (simp add: fresh_favorites_simps)
  note t1 = addFavoriteTeam_capacity [of "fresh_favorites (Some (Json (replicate 10 everton)))" arsenal "[]"]
  note t2 = addFavoriteTeam_capacity [of "fresh_favorites None" everton "[]"]
  note t3 = addFavoriteTeam_capacity [of "fresh_favorites (Some (Json [everton]))" arsenal "[]"]
  from t1 h1 have r1: "fst (addFavoriteTeam arsenal (fresh_favorites (Some (Json (replicate 10 everton))))) = Inr False"
    by blast
  from t2 h2 h3 have r2: "addFavoriteTeam everton (fresh_favorites None) = (Inr False, fresh_favorites None)"
    by blast
  from t3 h4 h5 h6 have r3: "fst (addFavoriteTeam arsenal (fresh_favorites (Some (Json [everton])))) = Inr True"
    and r4: "the_persisted (snd (addFavoriteTeam arsenal (fresh_favorites (Some (Json [everton])))))
       = Some (Json (current_favorites (fresh_favorites (Some (Json [everton]))) @ [arsenal]))"
    by blast+
  from r4 have r5: "the_persisted (snd (addFavoriteTeam arsenal (fresh_favorites (Some (Json [everton])))))
       = Some (Json [everton, arsenal])"
    by (simp add: c1)
  from h1 h2 h3 h4 h5 h6 r1 r2 r3 r5 show ?thesis
    by blast
qed

text \<open>
  The claim read on the stored list itself fails when the stored list is empty (the user
  has removed every team): Everton is not in the stored list and the list is below
  capacity, yet the call returns \<^verbatim>\<open>false\<close>; and adding Arsenal does not persist the
  one-element list but the four default teams followed by Arsenal.
\<close>

theorem addFavoriteTeam_stored_list_counterexample:
  "the_persisted (fresh_favorites (Some (Json []))) = Some (Json [])
   \<and> length ([] :: team list) < MAX_TEAMS
   \<and> \<not> list_ex (same_team everton) []
   \<and> fst (addFavoriteTeam everton (fresh_favorites (Some (Json [])))) = Inr False
   \<and> fst (addFavoriteTeam arsenal (fresh_favorites (Some (Json [])))) = Inr True
   \<and> the_persisted (snd (addFavoriteTeam arsenal (fresh_favorites (Some (Json [])))))
       = Some (Json (DEFAULT_TEAMS_literal @ [arsenal]))
   \<and> DEFAULT_TEAMS_literal @ [arsenal] \<noteq> [] @ [arsenal]"
proof -
  have c: "current_favorites (fresh_favorites (Some (Json []))) = DEFAULT_TEAMS_literal"
    using current_favorites_default [of "fresh_favorites (Some (Json []))"]
    by (simp add: fresh_favorites_simps)
  have lt: "length (current_favorites (fresh_favorites (Some (Json [])))) < MAX_TEAMS"
    by (simp add: c teams_differ MAX_TEAMS_def)
  have ex: "\<exists>t \<in> set (current_favorites (fresh_favorites (Some (Json [])))).
         team_id t = team_id everton \<and> league t = league everton"
    using teams_differ(3) by (auto simp: c)
  have a: "fst (addFavoriteTeam everton (fresh_favorites (Some (Json [])))) = Inr False"
    by (simp add: addFavoriteTeam_present [OF lt ex])
  have b: "fst (addFavoriteTeam arsenal (fresh_favorites (Some (Json [])))) = Inr True"
    "the_persisted (snd (addFavoriteTeam arsenal (fresh_favorites (Some (Json [])))))
       = Some (Json (DEFAULT_TEAMS_literal @ [arsenal]))"
    using addFavoriteTeam_appends [of "fresh_favorites (Some (Json []))" arsenal] lt teams_differ(5)
    by (simp_all add: c fresh_favorites_simps)
  have d: "DEFAULT_TEAMS_literal @ [arsenal] \<noteq> [] @ [arsenal]"
    using teams_differ(4) by auto
  from a b d show ?thesis
    by (simp add: fresh_favorites_simps MAX_TEAMS_def)
qed

section \<open>Big game settings: properties\<close>

lemma ensure_keeps:
  "pc c = Some l \<Longrightarrow> fst (ensure_competitions cs pc ns) c = Some l"
proof (induction cs arbitrary: pc ns)
  case Nil
  then show ?case by simp
next
  case (Cons a cs)
  show ?case
  proof (cases "pc a")
    case None
    with Cons.prems have "(pc(a \<mapsto> default_categories a)) c = Some l"
      by auto
    then have "fst (ensure_competitions cs (pc(a \<mapsto> default_categories a)) True) c = Some l"
      by (rule Cons.IH)
    moreover have "ensure_competitions (a # cs) pc ns
        = ensure_competitions cs (pc(a \<mapsto> default_categories a)) True"
      by (simp add: None)
    ultimately show ?thesis
      by (simp only:)
  next
    case (Some m)
    with Cons show ?thesis by simp
  qed
qed

lemma ensure_present:
  "c \<in> set cs \<Longrightarrow> fst (ensure_competitions cs pc ns) c \<noteq> None"
proof (induction cs arbitrary: pc ns)
  case Nil
  then show ?case by simp
next
  case (Cons a cs)
  show ?case
  proof (cases "c = a")
    case True
    then show ?thesis
      by (cases "pc a") (simp_all add: ensure_keeps)
  next
    case False
    with Cons show ?thesis by simp
  qed
qed

lemma ensure_unchanged:
  "\<forall>c \<in> set cs. pc c \<noteq> None \<Longrightarrow> ensure_competitions cs pc ns = (pc, ns)"
  by (induction cs arbitrary: pc ns) auto

lemma ensure_flag_mono:
  "snd (ensure_competitions cs pc True)"
  by (induction cs arbitrary: pc) auto

lemma ensure_flag_or_same:
  "snd (ensure_competitions cs pc ns) \<or> ensure_competitions cs pc ns = (pc, ns)"
  by (induction cs arbitrary: pc ns) (simp_all add: ensure_flag_mono)

lemma ensure_flag:
  "ensure_competitions cs pc False = (pc', False) \<Longrightarrow> pc' = pc"
  using ensure_flag_or_same [of cs pc False] by auto

lemma add_playoff_total:
  "\<forall>c \<in> set cs. pc c \<noteq> None \<Longrightarrow>
     \<exists>pc'. add_playoff_preview cs pc = Inr pc' \<and> (\<forall>c. pc c \<noteq> None \<longrightarrow> pc' c \<noteq> None)"
proof (induction cs arbitrary: pc)
  case Nil
  then show ?case by simp
next
  case (Cons a cs)
  then obtain l where l: "pc a = Some l" by auto
  show ?case
  proof (cases "js_includes l ''playoff-preview''")
    case True
    with Cons l show ?thesis by simp
  next
    case False
    have "\<forall>c \<in> set cs. (pc(a \<mapsto> l @ [''playoff-preview''])) c \<noteq> None"
      using Cons.prems by simp
    from Cons.IH [OF this] obtain pc' where
      "add_playoff_preview cs (pc(a \<mapsto> l @ [''playoff-preview''])) = Inr pc'"
      "\<forall>c. (pc(a \<mapsto> l @ [''playoff-preview''])) c \<noteq> None \<longrightarrow> pc' c \<noteq> None"
      by blast
    with False l show ?thesis
      by (auto split: if_splits)
  qed
qed

lemma apply_to_all_present:
  "c \<in> set cs \<or> pc c \<noteq> None \<Longrightarrow> apply_to_all cs cats pc c \<noteq> None"
  by (induction cs arbitrary: pc) auto

lemma covers_ensure:
  "covers_competitions (fst (ensure_competitions COMPETITIONS_keys pc ns))"
  by (simp add: covers_competitions_def ensure_present)

lemma covers_upd:
  "covers_competitions pc \<Longrightarrow> covers_competitions (pc(c \<mapsto> l))"
  by (simp add: covers_competitions_def)

lemma covers_add_playoff:
  assumes "covers_competitions pc"
  shows "\<exists>pc'. add_playoff_preview COMPETITIONS_keys pc = Inr pc' \<and> covers_competitions pc'"
  using add_playoff_total [of COMPETITIONS_keys pc] assms
  by (auto simp: covers_competitions_def)

lemma covers_apply_to_all:
  "covers_competitions (apply_to_all COMPETITIONS_keys cats pc)"
  by (simp add: covers_competitions_def apply_to_all_present)

lemma save_post:
  "saveBigGameSettings d st = (Inl e, st1) \<Longrightarrow>
     localStorage st1 = localStorage st \<and> sessionStorage st1 = sessionStorage st"
  "saveBigGameSettings d st = (Inr u, st1) \<Longrightarrow>
     sessionStorage st1 = sessionStorage st \<and> \<not> access_denied (localStorage st1)
     \<and> items (localStorage st1) BIG_GAME_SETTINGS_KEY = Some (Json d)
     \<and> setItem (localStorage st) BIG_GAME_SETTINGS_KEY d = Inr (localStorage st1)"
  by (auto simp: saveBigGameSettings_def setItem_def Let_def split: if_splits)

lemma migrate_legacy_post:
  "load_post st (fst (migrate_legacy cats st)) (snd (migrate_legacy cats st))"
proof -
  let ?m = "\<lparr>schemaVersion = Some SETTINGS_SCHEMA_VERSION,
             perCompetition = Some (apply_to_all COMPETITIONS_keys cats (\<lambda>k. None)),
             enabledCategories = None\<rparr>"
  have m: "all_competitions_present ?m" "3 \<le> savedVersion_of ?m"
    by (simp_all add: all_competitions_present_def covers_apply_to_all savedVersion_of_def
        SETTINGS_SCHEMA_VERSION_def)
  obtain r st1 where s: "saveBigGameSettings ?m st = (r, st1)"
    by (cases "saveBigGameSettings ?m st")
  show ?thesis
  proof (cases r)
    case (Inl e)
    with s save_post(1) [of ?m st e st1] show ?thesis
      by (simp add: migrate_legacy_def load_post_def Let_def)
  next
    case (Inr u)
    with s save_post(2) [of ?m st u st1] m show ?thesis
      by (simp add: migrate_legacy_def load_post_def Let_def)
  qed
qed

lemma migrate_versioned_post:
  assumes pc0: "perCompetition parsed = Some pc0"
    and rd: "\<not> access_denied (localStorage st)"
    and it: "items (localStorage st) BIG_GAME_SETTINGS_KEY = Some (Json parsed)"
  shows "load_post st (fst (migrate_versioned parsed pc0 st)) (snd (migrate_versioned parsed pc0 st))"
proof -
  obtain pc1 ns1 where e: "ensure_competitions COMPETITIONS_keys pc0 False = (pc1, ns1)"
    by (cases "ensure_competitions COMPETITIONS_keys pc0 False")
  have c1: "covers_competitions pc1"
    using covers_ensure [of pc0 False] e by simp
  obtain pc2 where a: "(if savedVersion_of parsed < 2 then add_playoff_preview COMPETITIONS_keys pc1 else Inr pc1) = Inr pc2"
    and c2: "covers_competitions pc2"
    using covers_add_playoff [OF c1] c1 by (cases "savedVersion_of parsed < 2") auto
  let ?pc3 = "if savedVersion_of parsed < 3 then pc2(''champions-league'' \<mapsto> CL_CATEGORIES) else pc2"
  have c3: "covers_competitions ?pc3"
    using c2 by (simp add: covers_upd)
  let ?migrated = "parsed\<lparr>perCompetition := Some ?pc3\<rparr>"
  let ?stamped = "?migrated\<lparr>schemaVersion := Some SETTINGS_SCHEMA_VERSION\<rparr>"
  show ?thesis
  proof (cases "(ns1 \<or> savedVersion_of parsed < 2) \<or> savedVersion_of parsed < 3
      \<or> savedVersion_of parsed < SETTINGS_SCHEMA_VERSION")
    case True
    have m: "all_competitions_present ?stamped" "3 \<le> savedVersion_of ?stamped"
      using c3 by (simp_all add: all_competitions_present_def savedVersion_of_def
          SETTINGS_SCHEMA_VERSION_def)
    obtain r st1 where s: "saveBigGameSettings ?stamped st = (r, st1)"
      by (cases "saveBigGameSettings ?stamped st")
    have mv: "migrate_versioned parsed pc0 st =
        (case r of Inl e \<Rightarrow> (Throw e, st1)
         | Inr u \<Rightarrow> (Return ?stamped, st1\<lparr>bigGameSettingsCache := Some ?stamped\<rparr>))"
      using True e a s by (auto simp: migrate_versioned_def Let_def)
    show ?thesis
    proof (cases r)
      case (Inl e)
      with s save_post(1) [of ?stamped st e st1] show ?thesis
        by (simp add: mv load_post_def)
    next
      case (Inr u)
      with s save_post(2) [of ?stamped st u st1] m show ?thesis
        by (simp add: mv load_post_def)
    qed
  next
    case False
    then have ns1: "\<not> ns1" and v: "3 \<le> savedVersion_of parsed"
      by (auto simp: SETTINGS_SCHEMA_VERSION_def)
    from e ns1 have "pc1 = pc0"
      using ensure_flag [of COMPETITIONS_keys pc0 pc1] by simp
    with a v have "pc2 = pc0"
      by simp
    with v pc0 have same: "?migrated = parsed"
      by simp
    have mv: "migrate_versioned parsed pc0 st = (Return ?migrated, st\<lparr>bigGameSettingsCache := Some ?migrated\<rparr>)"
      using False e a by (auto simp: migrate_versioned_def Let_def)
    have "all_competitions_present parsed"
      using c3 same pc0 \<open>pc2 = pc0\<close> v by (simp add: all_competitions_present_def)
    with v rd it show ?thesis
      unfolding mv same by (simp add: load_post_def)
  qed
qed

lemma load_settings_post:
  "load_post st (fst (load_settings st)) (snd (load_settings st))"
proof (cases "access_denied (localStorage st)")
  case True
  then show ?thesis
    by (simp add: load_settings_def getItem_def load_post_def)
next
  case rd: False
  show ?thesis
  proof (cases "items (localStorage st) BIG_GAME_SETTINGS_KEY")
    case None
    with rd show ?thesis
      by (simp add: load_settings_def getItem_def load_post_def truthy_item_def)
  next
    case (Some i)
    show ?thesis
    proof (cases i)
      case EmptyString
      with rd Some show ?thesis
        by (simp add: load_settings_def getItem_def load_post_def truthy_item_def)
    next
      case Unparseable
      with rd Some show ?thesis
        by (simp add: load_settings_def getItem_def load_post_def truthy_item_def JSON_parse_def)
    next
      case (Json parsed)
      show ?thesis
      proof (cases "perCompetition parsed")
        case None
        with rd Some Json migrate_legacy_post show ?thesis
          by (cases "enabledCategories parsed")
            (simp_all add: load_settings_def getItem_def truthy_item_def JSON_parse_def load_post_def)
      next
        case (Some pc0)
        have "load_settings st = migrate_versioned parsed pc0 st"
          using rd \<open>items (localStorage st) BIG_GAME_SETTINGS_KEY = Some i\<close> Json Some
          by (cases "enabledCategories parsed")
            (simp_all add: load_settings_def getItem_def truthy_item_def JSON_parse_def)
        with migrate_versioned_post [OF Some rd] \<open>items (localStorage st) BIG_GAME_SETTINGS_KEY = Some i\<close> Json
        show ?thesis by simp
      qed
    qed
  qed
qed

lemma load_settings_settled:
  assumes "\<not> access_denied (localStorage st)"
    and "items (localStorage st) BIG_GAME_SETTINGS_KEY = Some (Json d)"
    and "all_competitions_present d" and "3 \<le> savedVersion_of d"
  shows "load_settings st = (Return d, st\<lparr>bigGameSettingsCache := Some d\<rparr>)"
proof -
  from assms(3) obtain pc where pc: "perCompetition d = Some pc" and c: "covers_competitions pc"
    by (auto simp: all_competitions_present_def split: option.splits)
  have e: "ensure_competitions COMPETITIONS_keys pc False = (pc, False)"
    using c by (simp add: ensure_unchanged covers_competitions_def)
  have "migrate_versioned d pc st = (Return d, st\<lparr>bigGameSettingsCache := Some d\<rparr>)"
    using e assms(4) pc by (simp add: migrate_versioned_def Let_def SETTINGS_SCHEMA_VERSION_def)
  with assms(1,2) pc show ?thesis
    by (cases "enabledCategories d")
      (simp_all add: load_settings_def getItem_def truthy_item_def JSON_parse_def)
qed

lemma load_settings_storage_only:
  assumes "localStorage st' = localStorage st"
  shows "fst (load_settings st') = fst (load_settings st)"
    and "localStorage (snd (load_settings st')) = localStorage (snd (load_settings st))"
  using assms
  by (auto simp: load_settings_def migrate_legacy_def migrate_versioned_def
      saveBigGameSettings_def Let_def split: sum.splits option.splits prod.splits if_splits)

lemma overlay_storage_only:
  "sessionStorage st' = sessionStorage st \<Longrightarrow> overlay st' = overlay st"
  by (simp add: overlay_def getWatchPartySession_def)

lemma default_covers: "all_competitions_present DEFAULT_BIG_GAME_SETTINGS"
  by (simp add: all_competitions_present_def covers_competitions_def DEFAULT_BIG_GAME_SETTINGS_def
      COMPETITIONS_keys_def COMPETITIONS_def)

lemma getBigGameSettings_overlay:
  "overlay st = Some bg \<Longrightarrow> getBigGameSettings st = (overlay_document bg, st)"
  by (simp add: getBigGameSettings_def overlay_document_def)

lemma getBigGameSettings_cached:
  "overlay st = None \<Longrightarrow> bigGameSettingsCache st = Some c \<Longrightarrow> getBigGameSettings st = (c, st)"
  by (simp add: getBigGameSettings_def)

lemma getBigGameSettings_load:
  assumes "overlay st = None" and "bigGameSettingsCache st = None"
  shows "getBigGameSettings st =
     (case fst (load_settings st) of
        Return d \<Rightarrow> (d, snd (load_settings st))
      | _ \<Rightarrow> (DEFAULT_BIG_GAME_SETTINGS,
              (snd (load_settings st))\<lparr>bigGameSettingsCache := Some DEFAULT_BIG_GAME_SETTINGS\<rparr>))"
  using assms
  by (cases "load_settings st") (simp add: getBigGameSettings_def Let_def split: completion.splits)

lemma getBigGameSettings_post:
  assumes "overlay st = None" and "bigGameSettingsCache st = None"
  shows "bigGameSettingsCache (snd (getBigGameSettings st)) = Some (fst (getBigGameSettings st))"
    and "sessionStorage (snd (getBigGameSettings st)) = sessionStorage st"
    and "all_competitions_present (fst (getBigGameSettings st))"
  using load_settings_post [of st] default_covers
  by (auto simp: getBigGameSettings_load [OF assms] load_post_def split: completion.splits)

lemma getBigGameSettings_twice:
  "getBigGameSettings (snd (getBigGameSettings st)) = getBigGameSettings st"
proof (cases "overlay st")
  case (Some bg)
  then show ?thesis by (simp add: getBigGameSettings_overlay)
next
  case None
  show ?thesis
  proof (cases "bigGameSettingsCache st")
    case (Some c)
    with None show ?thesis by (simp add: getBigGameSettings_cached)
  next
    case nc: None
    let ?st1 = "snd (getBigGameSettings st)"
    have "overlay ?st1 = None"
      using overlay_storage_only [of ?st1 st] getBigGameSettings_post(2) [OF None nc] None by simp
    from getBigGameSettings_cached [OF this getBigGameSettings_post(1) [OF None nc]]
    show ?thesis by simp
  qed
qed

lemma getBigGameSettings_reload:
  assumes nc: "bigGameSettingsCache st = None"
  shows "fst (getBigGameSettings (invalidateSettingsCache (snd (getBigGameSettings st))))
           = fst (getBigGameSettings st)"
    and "localStorage (snd (getBigGameSettings (invalidateSettingsCache (snd (getBigGameSettings st)))))
           = localStorage (snd (getBigGameSettings st))"
proof -
  let ?st1 = "snd (getBigGameSettings st)"
  let ?st2 = "invalidateSettingsCache ?st1"
  have both: "fst (getBigGameSettings ?st2) = fst (getBigGameSettings st)
      \<and> localStorage (snd (getBigGameSettings ?st2)) = localStorage ?st1"
  proof (cases "overlay st")
    case (Some bg)
    then have "overlay (invalidateSettingsCache st) = Some bg"
      using overlay_storage_only [of "invalidateSettingsCache st" st]
      by (simp add: invalidateSettingsCache_def)
    with Some show ?thesis
      by (simp add: getBigGameSettings_overlay invalidateSettingsCache_def)
  next
    case None
    have o2: "overlay ?st2 = None"
      using overlay_storage_only [of ?st2 st] getBigGameSettings_post(2) [OF None nc] None
      by (simp add: invalidateSettingsCache_def)
    have c2: "bigGameSettingsCache ?st2 = None"
      by (simp add: invalidateSettingsCache_def)
    note g1 = getBigGameSettings_load [OF None nc]
    note g2 = getBigGameSettings_load [OF o2 c2]
    note post = load_settings_post [of st]
    show ?thesis
    proof (cases "fst (load_settings st)")
      case (Return d)
      with g1 have st1: "?st1 = snd (load_settings st)" and r1: "fst (getBigGameSettings st) = d"
        by simp_all
      from post Return have p: "all_competitions_present d" "3 \<le> savedVersion_of d"
        "\<not> access_denied (localStorage ?st1)"
        "items (localStorage ?st1) BIG_GAME_SETTINGS_KEY = Some (Json d)"
        by (simp_all add: load_post_def st1)
      have "load_settings ?st2 = (Return d, ?st2\<lparr>bigGameSettingsCache := Some d\<rparr>)"
        by (rule load_settings_settled) (simp_all add: p invalidateSettingsCache_def)
      with g2 r1 show ?thesis
        by (simp add: invalidateSettingsCache_def)
    next
      case (Throw e)
      with post have same: "localStorage (snd (load_settings st)) = localStorage st"
        by (simp add: load_post_def)
      from Throw g1 have l1: "localStorage ?st1 = localStorage st"
        and r1: "fst (getBigGameSettings st) = DEFAULT_BIG_GAME_SETTINGS"
        by (simp_all add: same)
      have l2: "localStorage ?st2 = localStorage st"
        by (simp add: invalidateSettingsCache_def l1)
      from load_settings_storage_only [OF l2] Throw same
      have "fst (load_settings ?st2) = Throw e" "localStorage (snd (load_settings ?st2)) = localStorage st"
        by simp_all
      with g2 r1 l1 show ?thesis by simp
    next
      case Normal
      with post have same: "localStorage (snd (load_settings st)) = localStorage st"
        by (simp add: load_post_def)
      from Normal g1 have l1: "localStorage ?st1 = localStorage st"
        and r1: "fst (getBigGameSettings st) = DEFAULT_BIG_GAME_SETTINGS"
        by (simp_all add: same)
      have l2: "localStorage ?st2 = localStorage st"
        by (simp add: invalidateSettingsCache_def l1)
      from load_settings_storage_only [OF l2] Normal same
      have "fst (load_settings ?st2) = Normal" "localStorage (snd (load_settings ?st2)) = localStorage st"
        by simp_all
      with g2 r1 l1 show ?thesis by simp
    qed
  qed
  from both show "fst (getBigGameSettings ?st2) = fst (getBigGameSettings st)"
    and "localStorage (snd (getBigGameSettings ?st2)) = localStorage ?st1"
    by simp_all
qed

lemma fresh_page_simps:
  "bigGameSettingsCache (fresh_page i w) = None"
  "working (localStorage (fresh_page i w))"
  "items (localStorage (fresh_page i w)) BIG_GAME_SETTINGS_KEY = i"
  "overlay (fresh_page i None) = None"
  "overlay (fresh_page i (Some (Json p))) = bigGames p"
  by (simp_all add: fresh_page_def empty_storage_def working_def overlay_def
      getWatchPartySession_def getItem_def truthy_item_def JSON_parse_def)

lemma save_working:
  assumes "working (localStorage st)"
  shows "saveBigGameSettings d st =
     (Inr (), st\<lparr>bigGameSettingsCache := Some d,
        localStorage := (localStorage st)\<lparr>items := (items (localStorage st))(BIG_GAME_SETTINGS_KEY \<mapsto> Json d),
          setItem_log := setItem_log (localStorage st) @ [(BIG_GAME_SETTINGS_KEY, d)]\<rparr>\<rparr>)"
  using assms by (simp add: saveBigGameSettings_def setItem_def working_def Let_def)

lemma version1_migrated:
  assumes w: "working (localStorage st)"
  shows "migrate_versioned version1_document ((\<lambda>k. None)(''premier-league'' \<mapsto> [''rob-lowe''])) st =
    (Return \<lparr>schemaVersion = Some 3,
        perCompetition = Some ((\<lambda>k. None)(''fa-cup'' \<mapsto> ALL_CATEGORIES, ''league-cup'' \<mapsto> ALL_CATEGORIES,
           ''nba'' \<mapsto> ALL_CATEGORIES, ''nhl'' \<mapsto> ALL_CATEGORIES,
           ''premier-league'' \<mapsto> [''rob-lowe'', ''playoff-preview''],
           ''champions-league'' \<mapsto> CL_CATEGORIES)),
        enabledCategories = None\<rparr>,
     st\<lparr>bigGameSettingsCache := Some \<lparr>schemaVersion = Some 3,
        perCompetition = Some ((\<lambda>k. None)(''fa-cup'' \<mapsto> ALL_CATEGORIES, ''league-cup'' \<mapsto> ALL_CATEGORIES,
           ''nba'' \<mapsto> ALL_CATEGORIES, ''nhl'' \<mapsto> ALL_CATEGORIES,
           ''premier-league'' \<mapsto> [''rob-lowe'', ''playoff-preview''],
           ''champions-league'' \<mapsto> CL_CATEGORIES)),
        enabledCategories = None\<rparr>,
        localStorage := (localStorage st)\<lparr>items := (items (localStorage st))(BIG_GAME_SETTINGS_KEY \<mapsto> Json \<lparr>schemaVersion = Some 3,
        perCompetition = Some ((\<lambda>k. None)(''fa-cup'' \<mapsto> ALL_CATEGORIES, ''league-cup'' \<mapsto> ALL_CATEGORIES,
           ''nba'' \<mapsto> ALL_CATEGORIES, ''nhl'' \<mapsto> ALL_CATEGORIES,
           ''premier-league'' \<mapsto> [''rob-lowe'', ''playoff-preview''],
           ''champions-league'' \<mapsto> CL_CATEGORIES)),
        enabledCategories = None\<rparr>),
          setItem_log := setItem_log (localStorage st) @ [(BIG_GAME_SETTINGS_KEY, \<lparr>schemaVersion = Some 3,
        perCompetition = Some ((\<lambda>k. None)(''fa-cup'' \<mapsto> ALL_CATEGORIES, ''league-cup'' \<mapsto> ALL_CATEGORIES,
           ''nba'' \<mapsto> ALL_CATEGORIES, ''nhl'' \<mapsto> ALL_CATEGORIES,
           ''premier-league'' \<mapsto> [''rob-lowe'', ''playoff-preview''],
           ''champions-league'' \<mapsto> CL_CATEGORIES)),
        enabledCategories = None\<rparr>)]\<rparr>\<rparr>)"
  by (simp add: migrate_versioned_def version1_document_def savedVersion_of_def
      COMPETITIONS_keys_def COMPETITIONS_def default_categories_def js_includes_def
      SETTINGS_SCHEMA_VERSION_def Let_def ALL_CATEGORIES_def CL_CATEGORIES_def save_working [OF w])

text \<open>
  C3. On a freshly loaded page without watch-party overlay whose storage works and holds
  \<^verbatim>\<open>{ schemaVersion: 1, perCompetition: { 'premier-league': ['rob-lowe'] } }\<close>,
  \<^verbatim>\<open>getBigGameSettings\<close> returns a document of the current schema version in which
  \<^verbatim>\<open>premier-league\<close> is \<^verbatim>\<open>['rob-lowe', 'playoff-preview']\<close>, the Champions League has exactly
  the four CL categories and every other competition the five generic ones; the load
  makes exactly one write, of the returned document, and that is what the storage holds
  afterwards.
\<close>

theorem version1_migration:
  assumes o: "overlay st = None" and c: "bigGameSettingsCache st = None"
    and w: "working (localStorage st)"
    and i: "items (localStorage st) BIG_GAME_SETTINGS_KEY = Some (Json version1_document)"
  shows "schemaVersion (fst (getBigGameSettings st)) = Some SETTINGS_SCHEMA_VERSION
    \<and> categories_of (fst (getBigGameSettings st)) ''premier-league'' = Some [''rob-lowe'', ''playoff-preview'']
    \<and> categories_of (fst (getBigGameSettings st)) ''champions-league'' = Some CL_CATEGORIES
    \<and> categories_of (fst (getBigGameSettings st)) ''fa-cup'' = Some ALL_CATEGORIES
    \<and> categories_of (fst (getBigGameSettings st)) ''league-cup'' = Some ALL_CATEGORIES
    \<and> categories_of (fst (getBigGameSettings st)) ''nba'' = Some ALL_CATEGORIES
    \<and> categories_of (fst (getBigGameSettings st)) ''nhl'' = Some ALL_CATEGORIES
    \<and> length ALL_CATEGORIES = 5 \<and> length CL_CATEGORIES = 4
    \<and> setItem_log (localStorage (snd (getBigGameSettings st)))
        = setItem_log (localStorage st) @ [(BIG_GAME_SETTINGS_KEY, fst (getBigGameSettings st))]
    \<and> items (localStorage (snd (getBigGameSettings st))) BIG_GAME_SETTINGS_KEY
        = Some (Json (fst (getBigGameSettings st)))"
proof -
  let ?d = "\<lparr>schemaVersion = Some 3,
        perCompetition = Some ((\<lambda>k. None)(''fa-cup'' \<mapsto> ALL_CATEGORIES, ''league-cup'' \<mapsto> ALL_CATEGORIES,
           ''nba'' \<mapsto> ALL_CATEGORIES, ''nhl'' \<mapsto> ALL_CATEGORIES,
           ''premier-league'' \<mapsto> [''rob-lowe'', ''playoff-preview''],
           ''champions-league'' \<mapsto> CL_CATEGORIES)),
        enabledCategories = None\<rparr>"
  from w have rd: "\<not> access_denied (localStorage st)"
    by (simp add: working_def)
  have "load_settings st = migrate_versioned version1_document ((\<lambda>k. None)(''premier-league'' \<mapsto> [''rob-lowe''])) st"
    using rd i
    by (simp add: load_settings_def getItem_def truthy_item_def JSON_parse_def version1_document_def)
  then have l: "load_settings st = (Return ?d, st\<lparr>bigGameSettingsCache := Some ?d,
        localStorage := (localStorage st)\<lparr>items := (items (localStorage st))(BIG_GAME_SETTINGS_KEY \<mapsto> Json ?d),
          setItem_log := setItem_log (localStorage st) @ [(BIG_GAME_SETTINGS_KEY, ?d)]\<rparr>\<rparr>)"
    by (simp add: version1_migrated [OF w])
  have g: "getBigGameSettings st = (?d, st\<lparr>bigGameSettingsCache := Some ?d,
        localStorage := (localStorage st)\<lparr>items := (items (localStorage st))(BIG_GAME_SETTINGS_KEY \<mapsto> Json ?d),
          setItem_log := setItem_log (localStorage st) @ [(BIG_GAME_SETTINGS_KEY, ?d)]\<rparr>\<rparr>)"
    by (simp add: getBigGameSettings_load [OF o c] l)
  show ?thesis
    unfolding g
    by (simp add: categories_of_def SETTINGS_SCHEMA_VERSION_def ALL_CATEGORIES_def CL_CATEGORIES_def)
qed

theorem version1_migration_witness:
  "overlay (fresh_page (Some (Json version1_document)) None) = None
   \<and> bigGameSettingsCache (fresh_page (Some (Json version1_document)) None) = None
   \<and> working (localStorage (fresh_page (Some (Json version1_document)) None))
   \<and> items (localStorage (fresh_page (Some (Json version1_document)) None)) BIG_GAME_SETTINGS_KEY
       = Some (Json version1_document)
   \<and> schemaVersion (fst (getBigGameSettings (fresh_page (Some (Json version1_document)) None))) = Some 3
   \<and> categories_of (fst (getBigGameSettings (fresh_page (Some (Json version1_document)) None)))
        ''premier-league'' = Some [''rob-lowe'', ''playoff-preview'']
   \<and> setItem_log (localStorage (snd (getBigGameSettings (fresh_page (Some (Json version1_document)) None))))
       = [(BIG_GAME_SETTINGS_KEY, fst (getBigGameSettings (fresh_page (Some (Json version1_document)) None)))]"
proof -
  have l: "setItem_log (localStorage (fresh_page (Some (Json version1_document)) None)) = []"
    by (simp add: fresh_page_def empty_storage_def)
  from version1_migration [of "fresh_page (Some (Json version1_document)) None"] l
  show ?thesis
    by (simp add: fresh_page_simps SETTINGS_SCHEMA_VERSION_def)
qed

text \<open>
  C4. Whatever the storage holds (nothing, an unreadable text, a document of the flat
  format or of any version) and whatever the session: a second call of
  \<^verbatim>\<open>getBigGameSettings\<close> returns what the first returned and changes nothing. When the
  first call did the load (the cache was empty before it) this is also so after
  \<^verbatim>\<open>invalidateSettingsCache\<close>: the second call returns the same document and leaves the
  local storage, its write log included, as the first call left it.
\<close>

theorem getBigGameSettings_idempotent:
  "getBigGameSettings (snd (getBigGameSettings st)) = getBigGameSettings st
   \<and> (bigGameSettingsCache st = None \<longrightarrow>
        fst (getBigGameSettings (invalidateSettingsCache (snd (getBigGameSettings st))))
          = fst (getBigGameSettings st)
      \<and> localStorage (snd (getBigGameSettings (invalidateSettingsCache (snd (getBigGameSettings st)))))
          = localStorage (snd (getBigGameSettings st)))"
  using getBigGameSettings_twice [of st] getBigGameSettings_reload [of st]
  by blast

theorem getBigGameSettings_idempotent_witness:
  "bigGameSettingsCache (fresh_page (Some (Json version1_document)) None) = None
   \<and> fst (getBigGameSettings (invalidateSettingsCache
        (snd (getBigGameSettings (fresh_page (Some (Json version1_document)) None)))))
      = fst (getBigGameSettings (fresh_page (Some (Json version1_document)) None))
   \<and> localStorage (snd (getBigGameSettings (invalidateSettingsCache
        (snd (getBigGameSettings (fresh_page (Some (Json version1_document)) None))))))
      = localStorage (snd (getBigGameSettings (fresh_page (Some (Json version1_document)) None)))"
  using getBigGameSettings_idempotent [of "fresh_page (Some (Json version1_document)) None"]
  by (simp add: fresh_page_simps)

text \<open>
  C5, as the code has it. Without an overlay, and with a cache that is empty or holds a
  document with every competition, \<^verbatim>\<open>getBigGameSettings\<close> returns a document with an entry
  for every key of \<^verbatim>\<open>COMPETITIONS\<close>, whatever the storage holds, and the cache it leaves has
  that property again. With an overlay it returns the overlay's \<^verbatim>\<open>bigGames\<close> as it is.
\<close>

theorem getBigGameSettings_all_competitions:
  "(overlay st = None \<and> (\<forall>c. bigGameSettingsCache st = Some c \<longrightarrow> all_competitions_present c) \<longrightarrow>
      all_competitions_present (fst (getBigGameSettings st))
      \<and> (\<forall>c. bigGameSettingsCache (snd (getBigGameSettings st)) = Some c \<longrightarrow> all_competitions_present c))
   \<and> (overlay st = Some bg \<longrightarrow> fst (getBigGameSettings st) = overlay_document bg)"
proof -
  have a: "all_competitions_present (fst (getBigGameSettings st))
      \<and> (\<forall>c. bigGameSettingsCache (snd (getBigGameSettings st)) = Some c \<longrightarrow> all_competitions_present c)"
    if o: "overlay st = None"
      and i: "\<forall>c. bigGameSettingsCache st = Some c \<longrightarrow> all_competitions_present c"
  proof (cases "bigGameSettingsCache st")
    case None
    from getBigGameSettings_post [OF o None] show ?thesis
      by simp
  next
    case (Some c)
    with i o show ?thesis
      by (simp add: getBigGameSettings_cached)
  qed
  have b: "fst (getBigGameSettings st) = overlay_document bg" if "overlay st = Some bg"
    using that by (simp add: getBigGameSettings_overlay)
  from a b show ?thesis by blast
qed

theorem getBigGameSettings_all_competitions_witness:
  "overlay (fresh_page (Some Unparseable) None) = None
   \<and> bigGameSettingsCache (fresh_page (Some Unparseable) None) = None
   \<and> all_competitions_present (fst (getBigGameSettings (fresh_page (Some Unparseable) None)))
   \<and> overlay (fresh_page None (Some (Json partial_party))) = bigGames partial_party
   \<and> perCompetition (fst (getBigGameSettings (fresh_page None (Some (Json partial_party)))))
       = bigGames partial_party"
proof -
  have b: "bigGames partial_party = Some ((\<lambda>k. None)(''premier-league'' \<mapsto> [''rob-lowe'']))"
    by (simp add: partial_party_def)
  from getBigGameSettings_all_competitions [of "fresh_page (Some Unparseable) None" "\<lambda>k. None"]
  have "all_competitions_present (fst (getBigGameSettings (fresh_page (Some Unparseable) None)))"
    by (simp add: fresh_page_simps)
  moreover
  from getBigGameSettings_all_competitions [of "fresh_page None (Some (Json partial_party))"
      "(\<lambda>k. None)(''premier-league'' \<mapsto> [''rob-lowe''])"]
  have "perCompetition (fst (getBigGameSettings (fresh_page None (Some (Json partial_party)))))
       = bigGames partial_party"
    by (simp add: fresh_page_simps b overlay_document_def)
  ultimately show ?thesis
    by (simp add: fresh_page_simps)
qed

text \<open>
  With a watch-party session whose \<^verbatim>\<open>bigGames\<close> has an entry for the Premier League only,
  the returned document has no entry for the other competitions.
\<close>

theorem getBigGameSettings_overlay_counterexample:
  "overlay (fresh_page None (Some (Json partial_party))) \<noteq> None
   \<and> \<not> all_competitions_present (fst (getBigGameSettings (fresh_page None (Some (Json partial_party)))))"
proof -
  have o: "overlay (fresh_page None (Some (Json partial_party)))
      = Some ((\<lambda>k. None)(''premier-league'' \<mapsto> [''rob-lowe'']))"
    by (simp add: fresh_page_simps partial_party_def)
  have "''nba'' \<in> set COMPETITIONS_keys"
    by (simp add: COMPETITIONS_keys_def COMPETITIONS_def)
  moreover have "((\<lambda>k. None)(''premier-league'' \<mapsto> [''rob-lowe''])) ''nba'' = None"
    by simp
  ultimately have "\<not> covers_competitions ((\<lambda>k. None)(''premier-league'' \<mapsto> [''rob-lowe'']))"
    unfolding covers_competitions_def by blast
  then show ?thesis
    by (simp add: getBigGameSettings_overlay [OF o] o overlay_document_def all_competitions_present_def)
qed

text \<open>
  C6, as the code has it. \<^verbatim>\<open>saveBigGameSettings\<close> does not look at the session: what it
  does is the same whatever the session storage holds. In every state it sets the cache to
  its argument, also when the write throws. On a storage that takes the write it stores the
  argument; on a storage that refuses the write the exception leaves the function and the
  local storage is as it was. What keeps the local document untouched in watch-party mode
  is the read path: with an overlay \<^verbatim>\<open>getBigGameSettings\<close> returns the overlay document and
  leaves the whole state, local storage and cache included, as it was.
\<close>

theorem saveBigGameSettings_unguarded:
  "bigGameSettingsCache (snd (saveBigGameSettings s st)) = Some s
   \<and> saveBigGameSettings s (st\<lparr>sessionStorage := session\<rparr>)
       = (fst (saveBigGameSettings s st), (snd (saveBigGameSettings s st))\<lparr>sessionStorage := session\<rparr>)
   \<and> (working (localStorage st) \<longrightarrow>
        fst (saveBigGameSettings s st) = Inr ()
      \<and> items (localStorage (snd (saveBigGameSettings s st))) BIG_GAME_SETTINGS_KEY = Some (Json s))
   \<and> (\<not> working (localStorage st) \<longrightarrow>
        (\<exists>e. fst (saveBigGameSettings s st) = Inl e)
      \<and> localStorage (snd (saveBigGameSettings s st)) = localStorage st)
   \<and> (overlay st = Some bg \<longrightarrow> getBigGameSettings st = (overlay_document bg, st))"
proof -
  have c: "bigGameSettingsCache (snd (saveBigGameSettings s st)) = Some s"
    by (simp add: saveBigGameSettings_def Let_def split: sum.splits)
  have i: "saveBigGameSettings s (st\<lparr>sessionStorage := session\<rparr>)
       = (fst (saveBigGameSettings s st), (snd (saveBigGameSettings s st))\<lparr>sessionStorage := session\<rparr>)"
    by (simp add: saveBigGameSettings_def Let_def split: sum.splits)
  have w: "fst (saveBigGameSettings s st) = Inr ()
      \<and> items (localStorage (snd (saveBigGameSettings s st))) BIG_GAME_SETTINGS_KEY = Some (Json s)"
    if "working (localStorage st)"
    using that by (simp add: save_working)
  have f: "(\<exists>e. fst (saveBigGameSettings s st) = Inl e)
      \<and> localStorage (snd (saveBigGameSettings s st)) = localStorage st"
    if "\<not> working (localStorage st)"
    using that by (auto simp: saveBigGameSettings_def setItem_def working_def Let_def)
  have g: "getBigGameSettings st = (overlay_document bg, st)" if "overlay st = Some bg"
    using that by (rule getBigGameSettings_overlay)
  from c i w f g show ?thesis
    by blast
qed

theorem saveBigGameSettings_unguarded_witness:
  "working (localStorage (fresh_page (Some (Json DEFAULT_BIG_GAME_SETTINGS)) (Some (Json partial_party))))
   \<and> overlay (fresh_page (Some (Json DEFAULT_BIG_GAME_SETTINGS)) (Some (Json partial_party)))
       = Some ((\<lambda>k. None)(''premier-league'' \<mapsto> [''rob-lowe'']))
   \<and> items (localStorage (snd (saveBigGameSettings version1_document
        (fresh_page (Some (Json DEFAULT_BIG_GAME_SETTINGS)) (Some (Json partial_party))))))
        BIG_GAME_SETTINGS_KEY = Some (Json version1_document)
   \<and> bigGameSettingsCache (snd (saveBigGameSettings version1_document
        (fresh_page (Some (Json DEFAULT_BIG_GAME_SETTINGS)) (Some (Json partial_party)))))
       = Some version1_document
   \<and> snd (getBigGameSettings (fresh_page (Some (Json DEFAULT_BIG_GAME_SETTINGS)) (Some (Json partial_party))))
       = fresh_page (Some (Json DEFAULT_BIG_GAME_SETTINGS)) (Some (Json partial_party))
   \<and> \<not> working (localStorage (full_page (Some (Json DEFAULT_BIG_GAME_SETTINGS)) (Some (Json partial_party))))
   \<and> fst (saveBigGameSettings version1_document
        (full_page (Some (Json DEFAULT_BIG_GAME_SETTINGS)) (Some (Json partial_party))))
       = Inl QuotaExceededError
   \<and> bigGameSettingsCache (snd (saveBigGameSettings version1_document
        (full_page (Some (Json DEFAULT_BIG_GAME_SETTINGS)) (Some (Json partial_party)))))
       = Some version1_document
   \<and> items (localStorage (snd (saveBigGameSettings version1_document
        (full_page (Some (Json DEFAULT_BIG_GAME_SETTINGS)) (Some (Json partial_party))))))
        BIG_GAME_SETTINGS_KEY = Some (Json DEFAULT_BIG_GAME_SETTINGS)"
proof -
  let ?st = "fresh_page (Some (Json DEFAULT_BIG_GAME_SETTINGS)) (Some (Json partial_party))"
  let ?full = "full_page (Some (Json DEFAULT_BIG_GAME_SETTINGS)) (Some (Json partial_party))"
  let ?bg = "(\<lambda>k. None)(''premier-league'' \<mapsto> [''rob-lowe''])"
  have w: "working (localStorage ?st)"
    by (simp add: fresh_page_simps)
  have o: "overlay ?st = Some ?bg"
    by (simp add: fresh_page_simps partial_party_def)
  have n: "\<not> working (localStorage ?full)"
    by (simp add: full_page_def working_def)
  have l: "items (localStorage ?full) BIG_GAME_SETTINGS_KEY = Some (Json DEFAULT_BIG_GAME_SETTINGS)"
    by (simp add: full_page_def fresh_page_simps)
  have e: "fst (saveBigGameSettings version1_document ?full) = Inl QuotaExceededError"
    by (simp add: saveBigGameSettings_def setItem_def full_page_def fresh_page_def empty_storage_def Let_def)
  note t1 = saveBigGameSettings_unguarded [of version1_document ?st "sessionStorage ?st" ?bg]
  note t2 = saveBigGameSettings_unguarded [of version1_document ?full "sessionStorage ?full" ?bg]
  from t1 w have a1: "items (localStorage (snd (saveBigGameSettings version1_document ?st)))
        BIG_GAME_SETTINGS_KEY = Some (Json version1_document)"
    by blast
  from t1 have a2: "bigGameSettingsCache (snd (saveBigGameSettings version1_document ?st))
       = Some version1_document"
    by blast
  from t1 o have a3: "getBigGameSettings ?st = (overlay_document ?bg, ?st)"
    by blast
  from t2 have b1: "bigGameSettingsCache (snd (saveBigGameSettings version1_document ?full))
       = Some version1_document"
    by blast
  from t2 n have b2: "localStorage (snd (saveBigGameSettings version1_document ?full)) = localStorage ?full"
    by blast
  from w o a1 a2 a3 n e b1 b2 l show ?thesis
    by simp
qed

text \<open>
  With a watch-party overlay active and the default document stored, a call of
  \<^verbatim>\<open>saveBigGameSettings\<close> replaces the stored document.
\<close>

theorem saveBigGameSettings_overlay_counterexample:
  "overlay (fresh_page (Some (Json DEFAULT_BIG_GAME_SETTINGS)) (Some (Json partial_party))) \<noteq> None
   \<and> items (localStorage (snd (saveBigGameSettings version1_document
        (fresh_page (Some (Json DEFAULT_BIG_GAME_SETTINGS)) (Some (Json partial_party))))))
        BIG_GAME_SETTINGS_KEY
     \<noteq> items (localStorage (fresh_page (Some (Json DEFAULT_BIG_GAME_SETTINGS)) (Some (Json partial_party))))
        BIG_GAME_SETTINGS_KEY"
proof -
  have o: "overlay (fresh_page (Some (Json DEFAULT_BIG_GAME_SETTINGS)) (Some (Json partial_party))) \<noteq> None"
    by (simp add: fresh_page_simps partial_party_def)
  have d: "version1_document \<noteq> DEFAULT_BIG_GAME_SETTINGS"
  proof
    assume "version1_document = DEFAULT_BIG_GAME_SETTINGS"
    then have "schemaVersion version1_document = schemaVersion DEFAULT_BIG_GAME_SETTINGS"
      by simp
    then show False
      by (simp add: version1_document_def DEFAULT_BIG_GAME_SETTINGS_def SETTINGS_SCHEMA_VERSION_def)
  qed
  from o d show ?thesis
    by (simp add: save_working fresh_page_simps)
qed

section \<open>Watch party sharing: properties\<close>

lemma b64_val_char: "n < 64 \<Longrightarrow> b64_val (b64_char n) = Some n"
  by (auto simp: b64_val_def b64_char_def)

lemma b64_char_not_ws: "\<not> ascii_whitespace (b64_char n)"
  by (auto simp: ascii_whitespace_def b64_char_def)

lemma b64_char_not_pad: "b64_char n \<noteq> 61"
  by (auto simp: b64_char_def)

lemma pad_not_ws: "\<not> ascii_whitespace 61"
  by (simp add: ascii_whitespace_def)

lemma encode_no_ws: "filter (\<lambda>c. \<not> ascii_whitespace c) (b64_encode s) = b64_encode s"
  by (induction s rule: b64_encode.induct) (simp_all add: b64_char_not_ws pad_not_ws)

lemma encode_length: "length (b64_encode s) mod 4 = 0"
  by (induction s rule: b64_encode.induct) simp_all

lemma encode_nonempty: "s \<noteq> [] \<Longrightarrow> b64_encode s \<noteq> []"
  by (induction s rule: b64_encode.induct) simp_all

lemma strip_encode: "strip_padding (b64_encode s) = map b64_char (b64_body s)"
proof (induction s rule: b64_encode.induct)
  case (1 a b c rest)
  show ?case
  proof (cases "rest = []")
    case True
    then show ?thesis
      by (simp add: strip_padding_def b64_char_not_pad)
  next
    case False
    then have ne: "b64_encode rest \<noteq> []" by (rule encode_nonempty)
    have len: "length (b64_encode rest) mod 4 = 0" by (rule encode_length)
    from ne len have l2: "butlast (b64_encode rest) \<noteq> []"
      by (cases "b64_encode rest" rule: rev_cases) (auto simp: mod_Suc split: if_splits)
    from 1 ne len l2 show ?thesis
      by (auto simp: strip_padding_def butlast_append split: if_splits)
  qed
qed (simp_all add: strip_padding_def b64_char_not_pad)

lemma body_bounds: "list_all (\<lambda>c. c \<le> 255) s \<Longrightarrow> list_all (\<lambda>n. n < 64) (b64_body s)"
  by (induction s rule: b64_body.induct) (auto simp: less_mult_imp_div_less)

lemma vals_chars: "list_all (\<lambda>n. n < 64) ns \<Longrightarrow> b64_vals (map b64_char ns) = Some ns"
  by (induction ns) (simp_all add: b64_val_char)

lemma body_length: "length (b64_body s) mod 4 \<noteq> Suc 0"
  by (induction s rule: b64_body.induct) simp_all

lemma byte_facts:
  fixes b :: nat
  assumes "b \<le> 255"
  shows "b div 16 div 16 = 0" and "b div 16 mod 16 = b div 16"
    and "b div 64 div 4 = 0" and "b div 64 mod 4 = b div 64"
proof -
  from assms have "b div 16 < 16" and "b div 64 < 4"
    by simp_all
  then show "b div 16 div 16 = 0" and "b div 16 mod 16 = b div 16"
    and "b div 64 div 4 = 0" and "b div 64 mod 4 = b div 64"
    by simp_all
qed

lemma decode_body: "list_all (\<lambda>c. c \<le> 255) s \<Longrightarrow> b64_decode (b64_body s) = s"
  by (induction s rule: b64_body.induct) (simp_all add: byte_facts)

lemma atob_btoa:
  assumes "list_all (\<lambda>c. c \<le> 255) s"
  shows "btoa s = Inr (b64_encode s)" and "atob (b64_encode s) = Inr s"
  using assms
  by (simp_all add: btoa_def atob_def encode_no_ws strip_encode body_length vals_chars
      body_bounds decode_body Let_def)

lemma hex_value_digit: "d < 16 \<Longrightarrow> hex_value (hex_digit d) = Some d"
  by (auto simp: hex_value_def hex_digit_def)

lemma hex4_parts:
  fixes c :: nat
  assumes "c < 65536"
  shows "c div 4096 < 16" and "c div 256 mod 16 < 16" and "c div 16 mod 16 < 16" and "c mod 16 < 16"
    and "c div 4096 * 4096 + c div 256 mod 16 * 256 + c div 16 mod 16 * 16 + c mod 16 = c"
proof -
  from assms show "c div 4096 < 16" by simp
  show "c div 256 mod 16 < 16" and "c div 16 mod 16 < 16" and "c mod 16 < 16" by simp_all
  have a: "c div 256 = c div 4096 * 16 + c div 256 mod 16"
    using div_mult_mod_eq [of "c div 256" 16] by (simp add: div_mult2_eq [symmetric])
  have b: "c div 16 = c div 256 * 16 + c div 16 mod 16"
    using div_mult_mod_eq [of "c div 16" 16] by (simp add: div_mult2_eq [symmetric])
  have d: "c = c div 16 * 16 + c mod 16"
    by simp
  from a b d show "c div 4096 * 4096 + c div 256 mod 16 * 256 + c div 16 mod 16 * 16 + c mod 16 = c"
    by linarith
qed

lemma parse_unicode_escape:
  assumes "c < 65536"
  shows "parse_chars (unicode_escape c @ s) = cons_char c (parse_chars s)"
  using hex4_parts [OF assms]
  by (simp add: unicode_escape_def hex4_def hex_value_digit parse_chars.simps)

lemma parse_plain:
  assumes "32 \<le> c" and "c \<noteq> 34" and "c \<noteq> 92"
  shows "parse_chars (c # s) = cons_char c (parse_chars s)"
  using assms by (simp add: parse_chars.simps)

lemma parse_short_escape:
  "parse_chars (92 # 34 # s) = cons_char 34 (parse_chars s)"
  "parse_chars (92 # 92 # s) = cons_char 92 (parse_chars s)"
  "parse_chars (92 # 98 # s) = cons_char 8 (parse_chars s)"
  "parse_chars (92 # 102 # s) = cons_char 12 (parse_chars s)"
  "parse_chars (92 # 110 # s) = cons_char 10 (parse_chars s)"
  "parse_chars (92 # 114 # s) = cons_char 13 (parse_chars s)"
  "parse_chars (92 # 116 # s) = cons_char 9 (parse_chars s)"
  by (simp_all add: unescape_def parse_chars.simps)

lemma cons_char_Some: "cons_char c (Some (s, r)) = Some (c # s, r)"
  by (simp add: cons_char_def)

lemma quote_body_step:
  assumes "parse_chars (quote_body cs @ 34 # rest) = Some (cs, rest)"
    and "\<And>d ds. cs = d # ds \<Longrightarrow> parse_chars (quote_body ds @ 34 # rest) = Some (ds, rest)"
  shows "parse_chars (quote_body (c # cs) @ 34 # rest) = Some (c # cs, rest)"
proof (cases "c = 34 \<or> c = 92 \<or> c = 8 \<or> c = 12 \<or> c = 10 \<or> c = 13 \<or> c = 9")
  case True
  then show ?thesis
    using assms(1) by (auto simp: parse_short_escape cons_char_Some)
next
  case ns: False
  show ?thesis
  proof (cases "c < 32")
    case True
    with ns assms(1) show ?thesis
      by (simp add: parse_unicode_escape cons_char_Some)
  next
    case ge: False
    then have pl: "parse_chars (c # s) = cons_char c (parse_chars s)" for s
      using ns by (simp add: parse_plain)
    show ?thesis
    proof (cases "high_surrogate c")
      case hs: True
      then have b: "c < 65536"
        by (simp add: high_surrogate_def)
      show ?thesis
      proof (cases cs)
        case Nil
        with ns ge hs b show ?thesis
          by (simp add: parse_unicode_escape cons_char_Some parse_chars.simps)
      next
        case (Cons d ds)
        show ?thesis
        proof (cases "low_surrogate d")
          case True
          then have "32 \<le> d" "d \<noteq> 34" "d \<noteq> 92"
            by (simp_all add: low_surrogate_def)
          then have "parse_chars (d # s) = cons_char d (parse_chars s)" for s
            by (rule parse_plain)
          with ns ge hs Cons True assms(2) [OF Cons] show ?thesis
            by (simp add: pl cons_char_Some)
        next
          case False
          with ns ge hs Cons b assms(1) show ?thesis
            by (simp add: parse_unicode_escape cons_char_Some)
        qed
      qed
    next
      case nh: False
      show ?thesis
      proof (cases "low_surrogate c")
        case True
        then have "c < 65536"
          by (simp add: low_surrogate_def)
        with ns ge nh True assms(1) show ?thesis
          by (simp add: parse_unicode_escape cons_char_Some)
      next
        case False
        with ns ge nh assms(1) show ?thesis
          by (simp add: pl cons_char_Some)
      qed
    qed
  qed
qed

lemma parse_chars_quote_body:
  "parse_chars (quote_body s @ 34 # rest) = Some (s, rest)"
proof (induction s rule: length_induct)
  case (1 s)
  show ?case
  proof (cases s)
    case Nil
    then show ?thesis by (simp add: parse_chars.simps)
  next
    case (Cons c cs)
    have a: "parse_chars (quote_body cs @ 34 # rest) = Some (cs, rest)"
      using 1 Cons by simp
    have b: "parse_chars (quote_body ds @ 34 # rest) = Some (ds, rest)" if "cs = d # ds" for d ds
      using 1 Cons that by simp
    from quote_body_step [OF a b] Cons show ?thesis
      by simp
  qed
qed

lemma digit_plus: "d < 10 \<Longrightarrow> digit (48 + d)"
  by (simp add: digit_def)

lemma decimal_digits: "list_all digit (decimal n)"
proof (induction n rule: decimal.induct)
  case (1 n)
  show ?case
  proof (cases "n < 10")
    case True
    then show ?thesis
      by (subst decimal.simps) (simp add: digit_plus)
  next
    case False
    with 1 show ?thesis
      by (subst decimal.simps) (simp add: digit_plus)
  qed
qed

lemma decimal_nonempty: "decimal n \<noteq> []"
  by (subst decimal.simps) simp

lemma digits_value_snoc: "digits_value (ds @ [d]) = 10 * digits_value ds + (d - 48)"
  by (simp add: digits_value_def)

lemma decimal_value: "digits_value (decimal n) = n"
proof (induction n rule: decimal.induct)
  case (1 n)
  show ?case
  proof (cases "n < 10")
    case True
    then show ?thesis
      by (subst decimal.simps) (simp add: digits_value_def)
  next
    case False
    with 1 show ?thesis
      by (subst decimal.simps) (simp add: digits_value_snoc)
  qed
qed

lemma decimal_hd: "0 < n \<Longrightarrow> hd (decimal n) \<noteq> 48"
proof (induction n rule: decimal.induct)
  case (1 n)
  show ?case
  proof (cases "n < 10")
    case True
    with 1 show ?thesis
      by (subst decimal.simps) simp
  next
    case False
    then have "0 < n div 10" by simp
    with 1 False have "hd (decimal (n div 10)) \<noteq> 48" by simp
    with False show ?thesis
      by (subst decimal.simps) (simp add: decimal_nonempty)
  qed
qed

lemma decimal_zero: "decimal 0 = [48]"
  by (subst decimal.simps) simp

lemma span_digits:
  assumes "list_all digit ds" and "number_end rest"
  shows "takeWhile digit (ds @ rest) = ds" and "dropWhile digit (ds @ rest) = rest"
proof -
  from assms(2) have r: "takeWhile digit rest = []" "dropWhile digit rest = rest"
    by (cases rest; simp add: number_end_def)+
  from assms(1) have a: "\<forall>x \<in> set ds. digit x"
    by (simp add: list_all_iff)
  from a r show "takeWhile digit (ds @ rest) = ds" and "dropWhile digit (ds @ rest) = rest"
    by simp_all
qed

lemma scan_tail:
  assumes "number_end rest"
  shows "scan_frac rest = Some ([], rest)" and "scan_exp rest = Some ([], rest)"
  using assms by (cases rest; simp add: number_end_def scan_frac_def scan_exp_def)+

lemma scan_int_decimal:
  assumes "number_end rest"
  shows "scan_int (decimal n @ rest) = Some (decimal n, rest)"
proof (cases "n = 0")
  case True
  then show ?thesis
    by (simp add: decimal_zero scan_int_def)
next
  case False
  obtain d ds where c: "decimal n = d # ds"
    using decimal_nonempty [of n] by (cases "decimal n") auto
  from False decimal_hd [of n] c have d: "d \<noteq> 48" by simp
  from decimal_digits [of n] c have dd: "digit d" "list_all digit ds" by simp_all
  from span_digits [OF dd(2) assms] c d dd(1) show ?thesis
    by (simp add: scan_int_def)
qed

lemma scan_sign_digit: "digit c \<Longrightarrow> scan_sign (c # s) = ([], c # s)"
  by (simp add: scan_sign_def digit_def)

lemma parse_number_text:
  assumes "number_end rest"
  shows "parse_number (number_text i @ rest) = Some (JNum i, rest)"
proof (cases "i < 0")
  case True
  then show ?thesis
    using scan_int_decimal [OF assms, of "nat (- i)"] scan_tail [OF assms]
    by (simp add: parse_number_def number_text_def scan_sign_def decimal_value)
next
  case False
  obtain d ds where c: "decimal (nat i) = d # ds"
    using decimal_nonempty [of "nat i"] by (cases "decimal (nat i)") auto
  with decimal_digits [of "nat i"] have "digit d" by simp
  then have "scan_sign (decimal (nat i) @ rest) = ([], decimal (nat i) @ rest)"
    by (simp add: c scan_sign_digit)
  with False show ?thesis
    using scan_int_decimal [OF assms, of "nat i"] scan_tail [OF assms]
    by (simp add: parse_number_def number_text_def decimal_value)
qed

lemma number_text_first:
  "\<exists>c s. number_text i = c # s \<and> (c = 45 \<or> digit c)"
proof -
  obtain d ds where c: "decimal (nat \<bar>i\<bar>) = d # ds"
    using decimal_nonempty [of "nat \<bar>i\<bar>"] by (cases "decimal (nat \<bar>i\<bar>)") auto
  with decimal_digits [of "nat \<bar>i\<bar>"] have "digit d" by simp
  with c show ?thesis
    by (cases "i < 0") (auto simp: number_text_def)
qed

lemma delimited_simps:
  "delimited []" "delimited (44 # s)" "delimited (93 # s)" "delimited (125 # s)"
  by (simp_all add: delimited_def)

lemma delimited_number_end: "delimited rest \<Longrightarrow> number_end rest"
  by (cases rest) (auto simp: delimited_def number_end_def digit_def)

lemma skip_ws_start: "\<not> json_whitespace c \<Longrightarrow> skip_ws (c # s) = c # s"
  by (simp add: skip_ws_def)

lemma value_start_not_ws: "value_start c \<Longrightarrow> \<not> json_whitespace c"
  by (auto simp: value_start_def json_whitespace_def digit_def)

lemma value_step_literals:
  "value_step rec (110 # 117 # 108 # 108 # rest) = Some (Inr (JNull, rest))"
  "value_step rec (116 # 114 # 117 # 101 # rest) = Some (Inr (JBool True, rest))"
  "value_step rec (102 # 97 # 108 # 115 # 101 # rest) = Some (Inr (JBool False, rest))"
  by (simp_all add: value_step_def skip_ws_start json_whitespace_def parse_literal_def)

lemma value_step_string:
  "value_step rec (JSON_quote s @ rest) = Some (Inr (JString s, rest))"
  by (simp add: value_step_def JSON_quote_def skip_ws_start json_whitespace_def parse_chars_quote_body)

lemma value_step_number:
  assumes "number_end rest"
  shows "value_step rec (number_text i @ rest) = Some (Inr (JNum i, rest))"
proof -
  obtain c s where t: "number_text i = c # s" and c: "c = 45 \<or> digit c"
    using number_text_first [of i] by blast
  from c have k: "\<not> json_whitespace c" "c \<noteq> 34" "c \<noteq> 91" "c \<noteq> 123" "c \<noteq> 110" "c \<noteq> 116" "c \<noteq> 102"
    by (auto simp: json_whitespace_def digit_def)
  have "parse_number (c # s @ rest) = Some (JNum i, rest)"
    using parse_number_text [OF assms, of i] t by simp
  with k show ?thesis
    by (simp add: t value_step_def skip_ws_start)
qed

lemma value_step_array:
  "value_step rec (91 # 93 # rest) = Some (Inr (JArray [], rest))"
  "value_start c \<Longrightarrow> value_step rec (91 # c # s) = rec (Elements []) (c # s)"
proof -
  show "value_step rec (91 # 93 # rest) = Some (Inr (JArray [], rest))"
    by (simp add: value_step_def skip_ws_start json_whitespace_def)
  assume c: "value_start c"
  then have "c \<noteq> 93" by (auto simp: value_start_def digit_def)
  with value_start_not_ws [OF c] show "value_step rec (91 # c # s) = rec (Elements []) (c # s)"
    by (simp add: value_step_def skip_ws_start json_whitespace_def)
qed

lemma value_step_object:
  "value_step rec (123 # 125 # rest) = Some (Inr (JObject [], rest))"
  "value_step rec (123 # 34 # s) = rec (Members []) (34 # s)"
  by (simp_all add: value_step_def skip_ws_start json_whitespace_def)

lemma elements_step_more:
  "rec Value s = Some (Inr (v, 44 # r)) \<Longrightarrow> elements_step rec acc s = rec (Elements (acc @ [v])) r"
  by (simp add: elements_step_def skip_ws_start json_whitespace_def)

lemma elements_step_last:
  "rec Value s = Some (Inr (v, 93 # r)) \<Longrightarrow> elements_step rec acc s = Some (Inr (JArray (acc @ [v]), r))"
  by (simp add: elements_step_def skip_ws_start json_whitespace_def)

lemma members_step_more:
  "rec Value s = Some (Inr (v, 44 # r)) \<Longrightarrow>
     members_step rec acc (JSON_quote k @ 58 # s) = rec (Members (obj_update k v acc)) r"
  by (simp add: members_step_def JSON_quote_def skip_ws_start json_whitespace_def
      parse_chars_quote_body)

lemma members_step_last:
  "rec Value s = Some (Inr (v, 125 # r)) \<Longrightarrow>
     members_step rec acc (JSON_quote k @ 58 # s) = Some (Inr (JObject (obj_update k v acc), r))"
  by (simp add: members_step_def JSON_quote_def skip_ws_start json_whitespace_def
      parse_chars_quote_body)

lemma obj_update_new: "k \<notin> fst ` set acc \<Longrightarrow> obj_update k v acc = acc @ [(k, v)]"
  by (induction acc) auto

lemma stringify_start:
  assumes "wf_json v"
  shows "\<exists>c s. JSON_stringify v = c # s \<and> value_start c"
proof (cases v)
  case (JNum i)
  with number_text_first [of i] show ?thesis
    by (auto simp: value_start_def)
qed (use assms in \<open>auto simp: value_start_def JSON_quote_def\<close>)

lemma parse_Suc:
  "parse (Suc n) Value s = value_step (parse n) s"
  "parse (Suc n) (Elements es) s = elements_step (parse n) es s"
  "parse (Suc n) (Members ms) s = members_step (parse n) ms s"
  by simp_all

lemma elements_roundtrip:
  assumes "\<And>v n rest. v \<in> set vs \<Longrightarrow> need v \<le> n \<Longrightarrow> delimited rest \<Longrightarrow>
      parse n Value (JSON_stringify v @ rest) = Some (Inr (v, rest))"
    and "vs \<noteq> []" and "sum_list (map (\<lambda>v. Suc (need v)) vs) \<le> n"
  shows "parse n (Elements acc) (join_commas (map JSON_stringify vs) @ 93 # rest)
      = Some (Inr (JArray (acc @ vs), rest))"
  using assms
proof (induction vs arbitrary: acc n)
  case Nil
  then show ?case by simp
next
  case (Cons v vs)
  from Cons.prems(3) obtain k where n: "n = Suc k" and k: "need v + sum_list (map (\<lambda>v. Suc (need v)) vs) \<le> k"
    by (cases n) auto
  show ?case
  proof (cases vs)
    case Nil
    have "parse k Value (JSON_stringify v @ 93 # rest) = Some (Inr (v, 93 # rest))"
      using k by (intro Cons.prems(1)) (simp_all add: delimited_simps)
    from elements_step_last [where rec = "parse k", OF this] Nil show ?thesis
      by (simp add: n parse_Suc del: parse.simps)
  next
    case (Cons w ws)
    let ?more = "join_commas (map JSON_stringify vs) @ 93 # rest"
    have "parse k Value (JSON_stringify v @ 44 # ?more) = Some (Inr (v, 44 # ?more))"
      using k by (intro Cons.prems(1)) (simp_all add: delimited_simps)
    from elements_step_more [where rec = "parse k", OF this]
    have "parse n (Elements acc) (JSON_stringify v @ 44 # ?more) = parse k (Elements (acc @ [v])) ?more"
      by (simp add: n parse_Suc del: parse.simps)
    moreover have "parse k (Elements (acc @ [v])) ?more = Some (Inr (JArray ((acc @ [v]) @ vs), rest))"
      using k Cons by (intro Cons.IH Cons.prems(1)) simp_all
    ultimately show ?thesis
      using Cons by simp
  qed
qed

lemma members_roundtrip:
  assumes "\<And>m n rest. m \<in> set ms \<Longrightarrow> need (snd m) \<le> n \<Longrightarrow> delimited rest \<Longrightarrow>
      parse n Value (JSON_stringify (snd m) @ rest) = Some (Inr (snd m, rest))"
    and "ms \<noteq> []" and "sum_list (map (\<lambda>m. Suc (need (snd m))) ms) \<le> n"
    and "distinct (map fst acc @ map fst ms)"
  shows "parse n (Members acc)
       (join_commas (map (\<lambda>m. JSON_quote (fst m) @ 58 # JSON_stringify (snd m)) ms) @ 125 # rest)
      = Some (Inr (JObject (acc @ ms), rest))"
  using assms
proof (induction ms arbitrary: acc n)
  case Nil
  then show ?case by simp
next
  case (Cons m ms)
  from Cons.prems(3) obtain k where n: "n = Suc k"
    and k: "need (snd m) + sum_list (map (\<lambda>m. Suc (need (snd m))) ms) \<le> k"
    by (cases n) auto
  have new: "obj_update (fst m) (snd m) acc = acc @ [m]"
    using Cons.prems(4) by (subst obj_update_new) auto
  show ?case
  proof (cases ms)
    case Nil
    have "parse k Value (JSON_stringify (snd m) @ 125 # rest) = Some (Inr (snd m, 125 # rest))"
      using k by (intro Cons.prems(1)) (simp_all add: delimited_simps)
    from members_step_last [where rec = "parse k", OF this] Nil new show ?thesis
      by (simp add: n parse_Suc del: parse.simps)
  next
    case (Cons w ws)
    let ?more = "join_commas (map (\<lambda>m. JSON_quote (fst m) @ 58 # JSON_stringify (snd m)) ms) @ 125 # rest"
    have "parse k Value (JSON_stringify (snd m) @ 44 # ?more) = Some (Inr (snd m, 44 # ?more))"
      using k by (intro Cons.prems(1)) (simp_all add: delimited_simps)
    from members_step_more [where rec = "parse k", OF this]
    have "parse n (Members acc) (JSON_quote (fst m) @ 58 # JSON_stringify (snd m) @ 44 # ?more)
        = parse k (Members (acc @ [m])) ?more"
      by (simp add: n parse_Suc new del: parse.simps)
    moreover have "parse k (Members (acc @ [m])) ?more = Some (Inr (JObject ((acc @ [m]) @ ms), rest))"
      using k Cons Cons.prems(4) by (intro Cons.IH Cons.prems(1)) simp_all
    ultimately show ?thesis
      using Cons by simp
  qed
qed

lemma parse_stringify:
  assumes "wf_json v" and "need v \<le> n" and "delimited rest"
  shows "parse n Value (JSON_stringify v @ rest) = Some (Inr (v, rest))"
  using assms
proof (induction v arbitrary: n rest rule: JSON_stringify.induct)
  case 1
  then obtain k where "n = Suc k" by (cases n) auto
  then show ?case
    by (simp add: parse_Suc value_step_literals del: parse.simps)
next
  case (2 b)
  then obtain k where "n = Suc k" by (cases n) auto
  then show ?case
    by (cases b) (simp_all add: parse_Suc value_step_literals del: parse.simps)
next
  case (3 i)
  then obtain k where "n = Suc k" by (cases n) auto
  with 3 show ?case
    by (simp add: parse_Suc value_step_number delimited_number_end del: parse.simps)
next
  case (4 t)
  then show ?case by simp
next
  case (5 s)
  then obtain k where "n = Suc k" by (cases n) auto
  then show ?case
    by (simp add: parse_Suc value_step_string del: parse.simps)
next
  case (6 vs)
  from 6(3) obtain k where n: "n = Suc k" and k: "sum_list (map (\<lambda>v. Suc (need v)) vs) \<le> k"
    by (cases n) auto
  show ?case
  proof (cases vs)
    case Nil
    then show ?thesis
      by (simp add: n parse_Suc value_step_array del: parse.simps)
  next
    case (Cons w ws)
    from 6(2) Cons have "wf_json w" by simp
    from stringify_start [OF this] obtain c s where c: "JSON_stringify w = c # s" "value_start c"
      by blast
    then obtain s' where s': "join_commas (map JSON_stringify vs) = c # s'"
      using Cons by (cases ws) auto
    have e: "parse k (Elements []) (join_commas (map JSON_stringify vs) @ 93 # rest)
        = Some (Inr (JArray ([] @ vs), rest))"
    proof (rule elements_roundtrip)
      fix v n rest
      assume "v \<in> set vs" "need v \<le> n" "delimited rest"
      with 6(1) [of v n rest] 6(2)
      show "parse n Value (JSON_stringify v @ rest) = Some (Inr (v, rest))"
        by simp
    qed (use Cons k in simp_all)
    have "parse n Value (91 # c # s' @ 93 # rest) = parse k (Elements []) (c # s' @ 93 # rest)"
      by (simp add: n parse_Suc value_step_array(2) [OF c(2)] del: parse.simps)
    with e s' show ?thesis
      by simp
  qed
next
  case (7 ms)
  from 7(3) obtain k where n: "n = Suc k" and k: "sum_list (map (\<lambda>m. Suc (need (snd m))) ms) \<le> k"
    by (cases n) auto
  let ?texts = "map (\<lambda>m. JSON_quote (fst m) @ 58 # JSON_stringify (snd m)) ms"
  show ?case
  proof (cases ms)
    case Nil
    then show ?thesis
      by (simp add: n parse_Suc value_step_object del: parse.simps)
  next
    case (Cons w ws)
    then obtain s' where s': "join_commas ?texts = 34 # s'"
      by (cases ws) (auto simp: JSON_quote_def)
    have e: "parse k (Members []) (join_commas ?texts @ 125 # rest)
        = Some (Inr (JObject ([] @ ms), rest))"
    proof (rule members_roundtrip)
      fix m n rest
      assume "m \<in> set ms" "need (snd m) \<le> n" "delimited rest"
      with 7(1) [of m n rest] 7(2)
      show "parse n Value (JSON_stringify (snd m) @ rest) = Some (Inr (snd m, rest))"
        by simp
    qed (use Cons k 7(2) in simp_all)
    have "parse n Value (123 # 34 # s' @ 125 # rest) = parse k (Members []) (34 # s' @ 125 # rest)"
      by (simp add: n parse_Suc value_step_object del: parse.simps)
    with e s' show ?thesis
      by simp
  qed
qed

lemma length_join_commas:
  "xs \<noteq> [] \<Longrightarrow> Suc (length (join_commas xs)) = sum_list (map (\<lambda>x. Suc (length x)) xs)"
  by (induction xs rule: join_commas.induct) simp_all

lemma need_length:
  assumes "wf_json v"
  shows "need v \<le> length (JSON_stringify v)"
  using assms
proof (induction v rule: JSON_stringify.induct)
  case (3 i)
  from number_text_first [of i] show ?case by auto
next
  case (6 vs)
  show ?case
  proof (cases "vs = []")
    case True
    then show ?thesis by simp
  next
    case False
    have "sum_list (map (\<lambda>v. Suc (need v)) vs) \<le> sum_list (map (\<lambda>v. Suc (length (JSON_stringify v))) vs)"
      using 6 by (intro sum_list_mono) simp
    also have "\<dots> = Suc (length (join_commas (map JSON_stringify vs)))"
      using False by (simp add: length_join_commas comp_def)
    finally show ?thesis by simp
  qed
next
  case (7 ms)
  let ?texts = "map (\<lambda>m. JSON_quote (fst m) @ 58 # JSON_stringify (snd m)) ms"
  show ?case
  proof (cases "ms = []")
    case True
    then show ?thesis by simp
  next
    case False
    have "sum_list (map (\<lambda>m. Suc (need (snd m))) ms)
        \<le> sum_list (map (\<lambda>m. Suc (length (JSON_quote (fst m) @ 58 # JSON_stringify (snd m)))) ms)"
      using 7 by (intro sum_list_mono) (simp add: le_SucI trans_le_add2)
    also have "\<dots> = Suc (length (join_commas ?texts))"
      using False by (simp add: length_join_commas comp_def)
    finally show ?thesis by simp
  qed
qed (simp_all add: JSON_quote_def)

lemma JSON_parse_stringify:
  assumes "wf_json v"
  shows "JSON_parse_text (JSON_stringify v) = Some (Inr v)"
proof -
  have "need v \<le> Suc (2 * length (JSON_stringify v))"
    using need_length [OF assms] by simp
  from parse_stringify [OF assms this, of "[]"] show ?thesis
    by (simp add: JSON_parse_text_def delimited_simps skip_ws_def)
qed

lemma skip_ws_length: "length (skip_ws s) \<le> length s"
  by (simp add: skip_ws_def length_dropWhile_le)

lemma skip_ws_Cons: "skip_ws s = c # r \<Longrightarrow> length r < length s"
  using skip_ws_length [of s] by simp

lemma cons_char_eq: "cons_char c x = Some (str, r) \<Longrightarrow> \<exists>str'. x = Some (str', r)"
  by (auto simp: cons_char_def split: option.splits)

lemma parse_chars_shorter: "parse_chars s = Some (str, r) \<Longrightarrow> length r < length s"
proof (induction s arbitrary: str rule: parse_chars.induct)
  case 1
  then show ?case by (simp add: parse_chars.simps)
next
  case (2 c cs)
  from 2(4) show ?case
    apply (subst (asm) parse_chars.simps)
    apply (auto split: if_splits list.splits option.splits dest!: cons_char_eq)
    using 2(1) apply fastforce
    using 2(2) apply fastforce
    using 2(3) apply fastforce
    done
qed

lemma scan_sign_length: "scan_sign s = (sg, r) \<Longrightarrow> length r \<le> length s"
  by (auto simp: scan_sign_def split: list.splits if_splits)

lemma scan_int_shorter: "scan_int s = Some (ip, r) \<Longrightarrow> length r < length s"
  by (auto simp: scan_int_def less_Suc_eq_le length_dropWhile_le split: list.splits if_splits)

lemma scan_frac_length: "scan_frac s = Some (fp, r) \<Longrightarrow> length r \<le> length s"
  by (auto simp: scan_frac_def le_SucI length_dropWhile_le split: list.splits if_splits)

lemma scan_exp_length: "scan_exp s = Some (ep, r) \<Longrightarrow> length r \<le> length s"
proof (cases s)
  case Nil
  then show "scan_exp s = Some (ep, r) \<Longrightarrow> length r \<le> length s"
    by (simp add: scan_exp_def)
next
  case (Cons c t)
  assume a: "scan_exp s = Some (ep, r)"
  show "length r \<le> length s"
  proof (cases "c = 101 \<or> c = 69")
    case False
    with a Cons show ?thesis by (auto simp: scan_exp_def)
  next
    case True
    obtain sg r1 where p: "(case t of [] \<Rightarrow> ([], t) | x # r' \<Rightarrow> if x = 43 \<or> x = 45 then ([x], r') else ([], t)) = (sg, r1)"
      by (cases "(case t of [] \<Rightarrow> ([], t) | x # r' \<Rightarrow> if x = 43 \<or> x = 45 then ([x], r') else ([], t))")
    then have "length r1 \<le> length t"
      by (auto split: list.splits if_splits)
    moreover from a Cons True p have "r = dropWhile digit r1"
      by (auto simp: scan_exp_def split: if_splits)
    ultimately show ?thesis
      using Cons length_dropWhile_le [of digit r1] by simp
  qed
qed

lemma parse_number_shorter:
  assumes "parse_number s = Some (v, r)"
  shows "length r < length s"
proof -
  obtain sg s1 where a: "scan_sign s = (sg, s1)"
    by (cases "scan_sign s")
  from assms a obtain ip s2 where b: "scan_int s1 = Some (ip, s2)"
    by (cases "scan_int s1") (auto simp: parse_number_def)
  from assms a b obtain fp s3 where c: "scan_frac s2 = Some (fp, s3)"
    by (cases "scan_frac s2") (auto simp: parse_number_def)
  from assms a b c obtain ep s4 where d: "scan_exp s3 = Some (ep, s4)"
    by (cases "scan_exp s3") (auto simp: parse_number_def)
  from assms a b c d have "r = s4"
    by (auto simp: parse_number_def split: if_splits)
  with scan_sign_length [OF a] scan_int_shorter [OF b] scan_frac_length [OF c] scan_exp_length [OF d]
  show ?thesis by simp
qed

lemma parse_literal_result:
  "parse_literal w v s \<noteq> None"
  "parse_literal w v s = Some (Inr (u, r)) \<Longrightarrow> length r \<le> length s"
  by (auto simp: parse_literal_def split: if_splits)

lemma consumesD: "consumes rec \<Longrightarrow> rec m s = Some (Inr (v, r)) \<Longrightarrow> length r < length s"
  by (auto simp: consumes_def)

lemma value_step_shorter:
  assumes c: "consumes rec" and v: "value_step rec s = Some (Inr (v, r))"
  shows "length r < length s"
proof (cases "skip_ws s")
  case Nil
  with v show ?thesis by (simp add: value_step_def)
next
  case (Cons x t)
  note t = skip_ws_Cons [OF Cons]
  consider (str) "x = 34" | (arr) "x = 91" | (obj) "x = 123"
    | (lit) "x = 110 \<or> x = 116 \<or> x = 102" | (num) "x \<noteq> 34" "x \<noteq> 91" "x \<noteq> 123" "x \<noteq> 110" "x \<noteq> 116" "x \<noteq> 102"
    by blast
  then show ?thesis
  proof cases
    case str
    with v Cons obtain st where "parse_chars t = Some (st, r)"
      by (auto simp: value_step_def split: option.splits)
    from parse_chars_shorter [OF this] t show ?thesis by simp
  next
    case arr
    show ?thesis
    proof (cases "skip_ws t")
      case Nil
      with v Cons arr show ?thesis by (simp add: value_step_def)
    next
      case (Cons d t')
      note t' = skip_ws_Cons [OF Cons]
      from v \<open>skip_ws s = x # t\<close> arr Cons
      have "r = t' \<or> rec (Elements []) (d # t') = Some (Inr (v, r))"
        by (auto simp: value_step_def split: if_splits)
      then show ?thesis
        using t t' consumesD [OF c, of "Elements []" "d # t'" v r] by auto
    qed
  next
    case obj
    show ?thesis
    proof (cases "skip_ws t")
      case Nil
      with v Cons obj show ?thesis by (simp add: value_step_def)
    next
      case (Cons d t')
      note t' = skip_ws_Cons [OF Cons]
      from v \<open>skip_ws s = x # t\<close> obj Cons
      have "r = t' \<or> rec (Members []) (d # t') = Some (Inr (v, r))"
        by (auto simp: value_step_def split: if_splits)
      then show ?thesis
        using t t' consumesD [OF c, of "Members []" "d # t'" v r] by auto
    qed
  next
    case lit
    with v Cons obtain w u where "parse_literal w u t = Some (Inr (v, r))"
      by (auto simp: value_step_def)
    from parse_literal_result(2) [OF this] t show ?thesis by simp
  next
    case num
    with v Cons have "parse_number (x # t) = Some (v, r)"
      by (auto simp: value_step_def split: option.splits)
    from parse_number_shorter [OF this] t show ?thesis by simp
  qed
qed

lemma elements_step_shorter:
  assumes c: "consumes rec" and v: "elements_step rec acc s = Some (Inr (v, r))"
  shows "length r < length s"
proof -
  from v obtain u t where a: "rec Value s = Some (Inr (u, t))"
    by (auto simp: elements_step_def split: option.splits sum.splits)
  note t = consumesD [OF c a]
  from v a obtain x t' where b: "skip_ws t = x # t'"
    by (cases "skip_ws t") (auto simp: elements_step_def)
  note t' = skip_ws_Cons [OF b]
  from v a b have "r = t' \<or> rec (Elements (acc @ [u])) t' = Some (Inr (v, r))"
    by (auto simp: elements_step_def split: if_splits)
  then show ?thesis
    using t t' consumesD [OF c, of "Elements (acc @ [u])" t' v r] by auto
qed

lemma members_step_shorter:
  assumes c: "consumes rec" and v: "members_step rec acc s = Some (Inr (v, r))"
  shows "length r < length s"
proof -
  from v obtain x t where a: "skip_ws s = x # t" and x: "x = 34"
    by (cases "skip_ws s") (auto simp: members_step_def split: if_splits)
  from v a x obtain k t1 where b: "parse_chars t = Some (k, t1)"
    by (cases "parse_chars t") (auto simp: members_step_def)
  from v a x b obtain y t2 where d: "skip_ws t1 = y # t2" and y: "y = 58"
    by (cases "skip_ws t1") (auto simp: members_step_def split: if_splits)
  from v a x b d y obtain u t3 where e: "rec Value t2 = Some (Inr (u, t3))"
    by (auto simp: members_step_def split: option.splits sum.splits)
  from v a x b d y e obtain z t4 where f: "skip_ws t3 = z # t4"
    by (cases "skip_ws t3") (auto simp: members_step_def)
  from v a x b d y e f
  have "r = t4 \<or> rec (Members (obj_update k u acc)) t4 = Some (Inr (v, r))"
    by (auto simp: members_step_def split: if_splits)
  then show ?thesis
    using skip_ws_Cons [OF a] parse_chars_shorter [OF b] skip_ws_Cons [OF d] consumesD [OF c e]
      skip_ws_Cons [OF f] consumesD [OF c, of "Members (obj_update k u acc)" t4 v r]
    by auto
qed

lemma parse_consumes: "consumes (parse n)"
proof (induction n)
  case 0
  show ?case by (simp add: consumes_def)
next
  case (Suc n)
  show ?case
    unfolding consumes_def
  proof (intro allI impI)
    fix m s v r
    assume "parse (Suc n) m s = Some (Inr (v, r))"
    then show "length r < length s"
      using value_step_shorter [OF Suc] elements_step_shorter [OF Suc] members_step_shorter [OF Suc]
      by (cases m) auto
  qed
qed

lemma returnsD: "returns n rec \<Longrightarrow> enough n m s \<Longrightarrow> rec m s \<noteq> None"
  by (auto simp: returns_def)

lemma value_step_returns:
  assumes r: "returns n rec" and f: "2 * length s < Suc n"
  shows "value_step rec s \<noteq> None"
proof (cases "skip_ws s")
  case Nil
  then show ?thesis by (simp add: value_step_def)
next
  case (Cons x t)
  note t = skip_ws_Cons [OF Cons]
  have sub: "rec m (d # t') \<noteq> None" if "skip_ws t = d # t'" and "m \<noteq> Value" for m d t'
  proof -
    from skip_ws_Cons [OF that(1)] t f have "2 * length (d # t') + 1 < n"
      by simp
    with that(2) have "enough n m (d # t')"
      by (cases m) (simp_all add: enough_def)
    from returnsD [OF r this] show ?thesis .
  qed
  show ?thesis
  proof (cases "skip_ws t")
    case Nil
    with Cons show ?thesis
      by (auto simp: value_step_def parse_literal_def split: option.splits)
  next
    case c2: (Cons d t')
    from sub [OF c2, of "Elements []"] sub [OF c2, of "Members []"] Cons c2 show ?thesis
      by (auto simp: value_step_def parse_literal_def split: option.splits)
  qed
qed

lemma elements_step_returns:
  assumes r: "returns n rec" and c: "consumes rec" and f: "2 * length s + 1 < Suc n"
  shows "elements_step rec acc s \<noteq> None"
proof -
  from f have "enough n Value s" by (simp add: enough_def)
  from returnsD [OF r this] obtain x where a: "rec Value s = Some x" by auto
  show ?thesis
  proof (cases x)
    case (Inl e)
    with a show ?thesis by (simp add: elements_step_def)
  next
    case (Inr p)
    obtain u t where p: "p = (u, t)" by (cases p)
    note t = consumesD [OF c a [unfolded Inr p]]
    show ?thesis
    proof (cases "skip_ws t")
      case Nil
      with a Inr p show ?thesis by (simp add: elements_step_def)
    next
      case (Cons y t')
      from skip_ws_Cons [OF Cons] t f have "enough n (Elements (acc @ [u])) t'"
        by (simp add: enough_def)
      from returnsD [OF r this] a Inr p Cons show ?thesis
        by (simp add: elements_step_def)
    qed
  qed
qed

lemma members_step_returns:
  assumes r: "returns n rec" and c: "consumes rec" and f: "2 * length s + 1 < Suc n"
  shows "members_step rec acc s \<noteq> None"
proof (cases "skip_ws s")
  case Nil
  then show ?thesis by (simp add: members_step_def)
next
  case (Cons x t)
  note t = skip_ws_Cons [OF Cons]
  show ?thesis
  proof (cases "parse_chars t")
    case None
    with Cons show ?thesis by (simp add: members_step_def)
  next
    case (Some kp)
    obtain k t1 where kp: "kp = (k, t1)" by (cases kp)
    note t1 = parse_chars_shorter [OF Some [unfolded kp]]
    show ?thesis
    proof (cases "skip_ws t1")
      case Nil
      with Cons Some kp show ?thesis by (simp add: members_step_def)
    next
      case c2: (Cons y t2)
      note t2 = skip_ws_Cons [OF c2]
      from t t1 t2 f have "enough n Value t2" by (simp add: enough_def)
      from returnsD [OF r this] obtain z where a: "rec Value t2 = Some z" by auto
      show ?thesis
      proof (cases z)
        case (Inl e)
        with Cons Some kp c2 a show ?thesis by (simp add: members_step_def)
      next
        case (Inr p)
        obtain u t3 where p: "p = (u, t3)" by (cases p)
        note t3 = consumesD [OF c a [unfolded Inr p]]
        show ?thesis
        proof (cases "skip_ws t3")
          case Nil
          with Cons Some kp c2 a Inr p show ?thesis by (simp add: members_step_def)
        next
          case c4: (Cons w t4)
          from skip_ws_Cons [OF c4] t t1 t2 t3 f have "enough n (Members (obj_update k u acc)) t4"
            by (simp add: enough_def)
          from returnsD [OF r this] Cons Some kp c2 a Inr p c4 show ?thesis
            by (simp add: members_step_def)
        qed
      qed
    qed
  qed
qed

lemma parse_returns: "returns n (parse n)"
proof (induction n)
  case 0
  show ?case by (auto simp: returns_def enough_def split: mode.splits)
next
  case (Suc n)
  show ?case
    unfolding returns_def
  proof (intro allI impI)
    fix m s
    assume "enough (Suc n) m s"
    then show "parse (Suc n) m s \<noteq> None"
      using value_step_returns [OF Suc] elements_step_returns [OF Suc parse_consumes]
        members_step_returns [OF Suc parse_consumes]
      by (cases m) (simp_all add: enough_def)
  qed
qed

lemma JSON_parse_text_returns: "JSON_parse_text s \<noteq> None"
proof -
  have "enough (Suc (2 * length s)) Value s"
    by (simp add: enough_def)
  from returnsD [OF parse_returns this] show ?thesis
    by (auto simp: JSON_parse_text_def split: option.splits sum.splits)
qed

lemma latin1_simps:
  "latin1 []" "latin1 (c # s) = (c \<le> 255 \<and> latin1 s)" "latin1 (s @ t) = (latin1 s \<and> latin1 t)"
  by (simp_all add: latin1_def)

lemma latin1_ascii: "latin1 (ascii s)"
  by (simp add: latin1_def ascii_def list_all_iff of_char_def order.strict_implies_order)

lemma hex_digit_le: "d < 16 \<Longrightarrow> hex_digit d \<le> 255"
  by (simp add: hex_digit_def)

lemma latin1_unicode_escape: "c < 65536 \<Longrightarrow> latin1 (unicode_escape c)"
  using hex4_parts(1-4) [of c]
  by (simp add: unicode_escape_def latin1_simps hex_digit_le)

lemma quote_body_latin1_step:
  assumes "c \<le> 255"
  shows "\<exists>p. quote_body (c # cs) = p @ quote_body cs \<and> latin1 p"
proof -
  from assms have e: "latin1 (unicode_escape c)" and ns: "\<not> high_surrogate c" "\<not> low_surrogate c"
    by (simp_all add: latin1_unicode_escape high_surrogate_def low_surrogate_def)
  show ?thesis
  proof (cases "c = 34 \<or> c = 92 \<or> c = 8 \<or> c = 12 \<or> c = 10 \<or> c = 13 \<or> c = 9")
    case True
    then have "\<exists>e. quote_body (c # cs) = [92, e] @ quote_body cs \<and> e \<le> 255"
      by auto
    then show ?thesis
      by (auto simp: latin1_simps)
  next
    case False
    show ?thesis
    proof (cases "c < 32")
      case True
      with False have "quote_body (c # cs) = unicode_escape c @ quote_body cs"
        by simp
      with e show ?thesis by blast
    next
      case ge: False
      with False ns have "quote_body (c # cs) = [c] @ quote_body cs"
        by simp
      moreover from assms have "latin1 [c]"
        by (simp add: latin1_simps)
      ultimately show ?thesis by blast
    qed
  qed
qed

lemma latin1_quote_body: "latin1 s \<Longrightarrow> latin1 (quote_body s)"
proof (induction s)
  case Nil
  show ?case by (simp add: latin1_simps)
next
  case (Cons c cs)
  then have c: "c \<le> 255" and cs: "latin1 (quote_body cs)"
    by (simp_all add: latin1_simps)
  from quote_body_latin1_step [OF c, of cs] cs show ?case
    by (auto simp: latin1_simps simp del: quote_body.simps)
qed

lemma latin1_decimal: "latin1 (decimal n)"
proof (induction n rule: decimal.induct)
  case (1 n)
  show ?case
  proof (cases "n < 10")
    case True
    then show ?thesis by (subst decimal.simps) (simp add: latin1_simps)
  next
    case False
    with 1 have "latin1 (decimal (n div 10))" by simp
    moreover have "48 + n mod 10 \<le> 255" by simp
    ultimately show ?thesis
      using False by (subst decimal.simps) (simp add: latin1_simps)
  qed
qed

lemma latin1_join_commas: "\<forall>x \<in> set xs. latin1 x \<Longrightarrow> latin1 (join_commas xs)"
  by (induction xs rule: join_commas.induct) (simp_all add: latin1_simps)

lemma latin1_stringify: "latin1_json x \<Longrightarrow> latin1 (JSON_stringify x)"
proof (induction x rule: JSON_stringify.induct)
  case (6 vs)
  then have "\<forall>t \<in> set (map JSON_stringify vs). latin1 t" by simp
  from latin1_join_commas [OF this] show ?case
    by (simp add: latin1_simps)
next
  case (7 ms)
  then have "\<forall>t \<in> set (map (\<lambda>m. JSON_quote (fst m) @ 58 # JSON_stringify (snd m)) ms). latin1 t"
    by (auto simp: latin1_simps JSON_quote_def latin1_quote_body)
  from latin1_join_commas [OF this] show ?case
    by (simp add: latin1_simps)
qed (simp_all add: latin1_simps JSON_quote_def latin1_quote_body number_text_def latin1_decimal)

lemma ascii_eq: "ascii s = ascii t \<longleftrightarrow> s = t"
  by (simp add: ascii_def inj_on_def)

lemma sample_wf: "wf_json sample_snapshot"
  by (simp add: sample_snapshot_def ascii_eq)

lemma sample_latin1: "latin1_json sample_snapshot"
  by (simp add: sample_snapshot_def latin1_ascii)

lemma ascii_null: "ascii ''null'' = [110, 117, 108, 108]"
  by (simp add: ascii_def)

lemma atob_null: "atob (ascii ''null'') = Inr [158, 233, 101]"
  by (simp add: ascii_null atob_def strip_padding_def ascii_whitespace_def b64_val_def Let_def)

lemma parse_null_bytes: "JSON_parse_text [158, 233, 101] = Some (Inl SyntaxError)"
proof -
  have "parse (Suc n) Value [158, 233, 101] = Some (Inl SyntaxError)" for n
    by (simp add: value_step_def skip_ws_def json_whitespace_def parse_number_def scan_sign_def
        scan_int_def digit_def)
  from this [of 6] have "parse 7 Value [158, 233, 101] = Some (Inl SyntaxError)"
    by (simp del: parse.simps)
  then show ?thesis
    by (simp add: JSON_parse_text_def del: parse.simps)
qed

lemma mem_quote_body:
  assumes "latin1 s" and "255 < c" and "\<not> high_surrogate c" and "\<not> low_surrogate c"
  shows "c \<in> set (quote_body (s @ c # t))"
  using assms(1)
proof (induction s)
  case Nil
  from assms(2-4) show ?case by simp
next
  case (Cons d ds)
  then have d: "d \<le> 255" and ih: "c \<in> set (quote_body (ds @ c # t))"
    by (simp_all add: latin1_simps)
  from quote_body_latin1_step [OF d, of "ds @ c # t"] ih show ?case
    by (auto simp del: quote_body.simps)
qed

lemma besiktas_name: "351 \<in> set (quote_body (ascii ''Be'' @ [351] @ ascii ''ikta'' @ [351]))"
  using mem_quote_body [of "ascii ''Be''" 351 "ascii ''ikta'' @ [351]"]
  by (simp add: latin1_ascii high_surrogate_def low_surrogate_def)

lemma besiktas_text: "351 \<in> set (JSON_stringify besiktas_snapshot)"
  using besiktas_name by (simp add: besiktas_snapshot_def JSON_quote_def)

lemma besiktas_not_latin1: "\<not> latin1 (JSON_stringify besiktas_snapshot)"
proof
  assume "latin1 (JSON_stringify besiktas_snapshot)"
  with besiktas_text have "(351::nat) \<le> 255"
    by (auto simp: latin1_def list_all_iff)
  then show False by simp
qed

lemma besiktas_wf: "wf_json besiktas_snapshot"
  by (simp add: besiktas_snapshot_def ascii_eq)

text \<open>
  C8, as the code has it. For a well-formed snapshot \<open>x\<close> whose JSON text has no code
  unit above 255, \<^verbatim>\<open>encodeWatchParty\<close> returns a token and \<^verbatim>\<open>decodeWatchParty\<close> of that token
  returns \<open>x\<close>; this is so in particular when no key and no string of \<open>x\<close> has a code unit
  above 255. When the JSON text has a code unit above 255, \<^verbatim>\<open>encodeWatchParty\<close> returns
  \<^verbatim>\<open>null\<close>. \<^verbatim>\<open>decodeWatchParty\<close> returns for every token, and returns \<^verbatim>\<open>null\<close> whenever \<^verbatim>\<open>atob\<close>
  or \<^verbatim>\<open>JSON.parse\<close> throws.
\<close>

theorem watch_party_round_trip:
  "(wf_json x \<and> latin1 (JSON_stringify x) \<longrightarrow>
      (\<exists>token. encodeWatchParty x = Some token \<and> decodeWatchParty token = Some (Some x)))
   \<and> (latin1_json x \<longrightarrow> latin1 (JSON_stringify x))
   \<and> (\<not> latin1 (JSON_stringify x) \<longrightarrow> encodeWatchParty x = None)
   \<and> decodeWatchParty encoded \<noteq> None
   \<and> ((\<exists>e. atob encoded = Inl e)
       \<or> (\<exists>decoded e. atob encoded = Inr decoded \<and> JSON_parse_text decoded = Some (Inl e)) \<longrightarrow>
      decodeWatchParty encoded = Some None)"
proof -
  have a: "\<exists>token. encodeWatchParty x = Some token \<and> decodeWatchParty token = Some (Some x)"
    if "wf_json x" "latin1 (JSON_stringify x)"
    using that atob_btoa [of "JSON_stringify x"] JSON_parse_stringify [of x]
    by (simp add: encodeWatchParty_def decodeWatchParty_def latin1_def)
  have b: "encodeWatchParty x = None" if "\<not> latin1 (JSON_stringify x)"
    using that by (simp add: encodeWatchParty_def btoa_def latin1_def)
  have c: "decodeWatchParty encoded \<noteq> None"
  proof (cases "atob encoded")
    case (Inl e)
    then show ?thesis by (simp add: decodeWatchParty_def)
  next
    case (Inr decoded)
    with JSON_parse_text_returns [of decoded] show ?thesis
      by (auto simp: decodeWatchParty_def split: sum.splits)
  qed
  have d: "decodeWatchParty encoded = Some None"
    if "(\<exists>e. atob encoded = Inl e)
       \<or> (\<exists>decoded e. atob encoded = Inr decoded \<and> JSON_parse_text decoded = Some (Inl e))"
    using that by (auto simp: decodeWatchParty_def)
  from a b c d latin1_stringify [of x] show ?thesis by blast
qed

theorem watch_party_round_trip_witness:
  "wf_json sample_snapshot \<and> latin1_json sample_snapshot \<and> latin1 (JSON_stringify sample_snapshot)
   \<and> (\<exists>token. encodeWatchParty sample_snapshot = Some token
        \<and> decodeWatchParty token = Some (Some sample_snapshot))
   \<and> (\<exists>decoded e. atob (ascii ''null'') = Inr decoded \<and> JSON_parse_text decoded = Some (Inl e))
   \<and> decodeWatchParty (ascii ''null'') = Some None"
proof -
  note t = watch_party_round_trip [of sample_snapshot "ascii ''null''"]
  from t sample_latin1 have l: "latin1 (JSON_stringify sample_snapshot)"
    by blast
  have n: "\<exists>decoded e. atob (ascii ''null'') = Inr decoded \<and> JSON_parse_text decoded = Some (Inl e)"
    using atob_null parse_null_bytes by blast
  from t sample_wf sample_latin1 l n show ?thesis
    by blast
qed

text \<open>
  A well-formed snapshot with a team named with U+015F: \<^verbatim>\<open>btoa\<close> throws, \<^verbatim>\<open>encodeWatchParty\<close>
  returns \<^verbatim>\<open>null\<close>, and decoding that gives \<^verbatim>\<open>null\<close>, not the snapshot.
\<close>

theorem watch_party_non_latin1_counterexample:
  "wf_json besiktas_snapshot
   \<and> encodeWatchParty besiktas_snapshot = None
   \<and> decodeWatchParty (token_text (encodeWatchParty besiktas_snapshot)) = Some None"
proof -
  have e: "encodeWatchParty besiktas_snapshot = None"
    using besiktas_not_latin1 by (simp add: encodeWatchParty_def btoa_def latin1_def)
  have "decodeWatchParty (ascii ''null'') = Some None"
    by (simp add: decodeWatchParty_def atob_null parse_null_bytes)
  with e besiktas_wf show ?thesis
    by (simp add: token_text_def)
qed

end
